theory Spec2Isabelle
  imports Main "HOL-Library.Word"
begin

unbundle bit_operations_syntax

section \<open>Bytes, machine integers and undefined behaviour\<close>

text \<open>
  The program works on \<^verbatim>\<open>vector<unsigned char>\<close> buffers and \<^verbatim>\<open>unsigned int\<close>
  values. A byte is an 8-bit word, a \<^verbatim>\<open>uint\<close> a 32-bit word (so \<open>+\<close> and \<open>*\<close> wrap
  around as in C++), and a buffer is a list of bytes.

  \<^verbatim>\<open>operator[]\<close> of a vector does not check its index: an access past the end is
  undefined behaviour. The model makes every such access a checked one that stops
  with \<open>OutOfBounds\<close>. Constructing a vector whose size exceeds \<^verbatim>\<open>max_size()\<close> throws
  \<^verbatim>\<open>std::length_error\<close>, which nothing in the program catches: \<open>LengthError\<close>.
  Dereferencing the \<^verbatim>\<open>end()\<close> iterator of a container is undefined as well:
  \<open>InvalidIterator\<close>.
\<close>

type_synonym byte = "8 word"
type_synonym uint = "32 word"
type_synonym bytes = "byte list"

datatype error = OutOfBounds | LengthError | InvalidIterator

definition bindE :: "error + 'a \<Rightarrow> ('a \<Rightarrow> error + 'b) \<Rightarrow> error + 'b" where
  "bindE m f = (case m of Inl e \<Rightarrow> Inl e | Inr x \<Rightarrow> f x)"

text \<open>\<^verbatim>\<open>vector::resize(n)\<close>: cut to \<open>n\<close> elements, or fill up with zero bytes.\<close>

definition resize :: "nat \<Rightarrow> bytes \<Rightarrow> bytes" where
  "resize n buf = take n buf @ replicate (n - length buf) 0"

text \<open>
  \<^verbatim>\<open>getUncompressedSize\<close>: the three bytes 6, 7, 8 of the compression header, big
  endian. The source reads them unchecked.
\<close>

definition getUncompressedSize :: "bytes \<Rightarrow> error + uint" where
  "getUncompressedSize buf =
     (if 8 < length buf
      then Inr (push_bit 16 (ucast (buf ! 6)) OR push_bit 8 (ucast (buf ! 7)) OR ucast (buf ! 8))
      else Inl OutOfBounds)"

section \<open>The archive model\<close>

datatype Mode = RECOMPRESS | DECOMPRESS | SKIP

record Header =
  majorVersion :: uint
  minorVersion :: uint
  majorUserVersion :: uint
  minorUserVersion :: uint
  flags :: uint
  createdDate :: uint
  modifiedDate :: uint
  indexMajorVersion :: uint
  indexEntryCount :: uint
  indexLocation :: uint
  indexSize :: uint
  holeIndexEntryCount :: uint
  holeIndexLocation :: uint
  holeIndexSize :: uint
  indexMinorVersion :: uint
  remainder :: bytes

text \<open>
  One entry of the package. The fields \<^verbatim>\<open>type\<close>, \<^verbatim>\<open>group\<close>, \<^verbatim>\<open>instance\<close>,
  \<^verbatim>\<open>resource\<close>, \<^verbatim>\<open>location\<close> and \<^verbatim>\<open>size\<close> carry the prefix \<open>e_\<close> here.
\<close>

record Entry =
  e_type :: uint
  e_group :: uint
  e_instance :: uint
  e_resource :: uint
  e_location :: uint
  e_size :: uint
  uncompressedSize :: uint
  compressed :: bool
  repeated :: bool

record Hole =
  h_location :: uint
  h_size :: uint

section \<open>The codec interface and the per-entry transforms\<close>

text \<open>
  \<^verbatim>\<open>qfs_compress(src, srclen, dst, dstlen)\<close> and \<^verbatim>\<open>qfs_decompress(src, srclen, dst, dstlen)\<close>
  come from \<^verbatim>\<open>qfs.h\<close>, which the transforms below only call. They are parameters of
  the model: a compressor maps the source bytes and the size of the destination
  buffer to the returned length and the bytes it left in the destination; a
  decompressor maps them to the success flag and the destination bytes.
  The destination is a vector of \<^verbatim>\<open>dstlen\<close> bytes whatever the callee does, which
  \<open>resize\<close> expresses.
\<close>

type_synonym compressor = "bytes \<Rightarrow> nat \<Rightarrow> int \<times> bytes"
type_synonym decompressor = "bytes \<Rightarrow> nat \<Rightarrow> bool \<times> bytes"

text \<open>
  \<^verbatim>\<open>compressEntry\<close>. The destination has \<^verbatim>\<open>content.size() - 1\<close> bytes; for an empty
  payload the subtraction wraps around in \<^verbatim>\<open>size_t\<close> and the vector constructor
  throws.
\<close>

definition compressEntry :: "compressor \<Rightarrow> Entry \<Rightarrow> bytes \<Rightarrow> error + (Entry \<times> bytes)" where
  "compressEntry qc entry content =
     (if \<not> compressed entry \<and> \<not> repeated entry then
        if length content = 0 then Inl LengthError
        else
          let dstlen = length content - 1;
              (len, dst) = qc content dstlen;
              newContent = resize dstlen dst
          in if len > 0
             then Inr (entry\<lparr>compressed := True\<rparr>, resize (nat len) newContent)
             else Inr (entry, content)
      else Inr (entry, content))"

text \<open>
  \<^verbatim>\<open>decompressEntry\<close>. On failure the source prints a message and falls through to
  \<^verbatim>\<open>return content\<close>.
\<close>

definition decompressEntry :: "decompressor \<Rightarrow> Entry \<Rightarrow> bytes \<Rightarrow> error + (Entry \<times> bytes)" where
  "decompressEntry qd entry content =
     (if compressed entry then
        bindE (getUncompressedSize content) (\<lambda>n.
          let (success, dst) = qd content (unat n);
              newContent = resize (unat n) dst
          in if success
             then Inr (entry\<lparr>compressed := False\<rparr>, newContent)
             else Inr (entry, content))
      else Inr (entry, content))"

definition recompressEntry ::
  "compressor \<Rightarrow> decompressor \<Rightarrow> Entry \<Rightarrow> bytes \<Rightarrow> error + (Entry \<times> bytes)" where
  "recompressEntry qc qd entry content =
     (let wasCompressed = compressed entry in
      bindE (decompressEntry qd entry content) (\<lambda>(entry1, newContent).
      bindE (compressEntry qc entry1 newContent) (\<lambda>(entry2, newContent2).
        if length newContent2 < length content
        then Inr (entry2, newContent2)
        else Inr (entry2\<lparr>compressed := wasCompressed\<rparr>, content))))"

section \<open>File streams and the integer readers and writers\<close>

text \<open>
  An \<^verbatim>\<open>fstream\<close> opened for reading is its bytes and its fail bit. A read that
  asks for more bytes than the file has delivers the bytes that are there, leaves
  the rest of the (zero-initialised) buffer alone and sets the fail bit; from then on
  every \<^verbatim>\<open>seekg\<close> and \<^verbatim>\<open>read\<close> does nothing and \<^verbatim>\<open>tellg\<close> answers \<open>-1\<close>.
  \<^verbatim>\<open>getFileSize\<close> stores the position in a \<^verbatim>\<open>uint\<close>, hence \<open>of_nat\<close>.
\<close>

record fstream =
  contents :: bytes
  failbit :: bool

definition openFile :: "bytes \<Rightarrow> fstream" where
  "openFile bs = \<lparr>contents = bs, failbit = False\<rparr>"

definition getFileSize :: "fstream \<Rightarrow> uint" where
  "getFileSize file = (if failbit file then - 1 else of_nat (length (contents file)))"

definition readFile :: "fstream \<Rightarrow> uint \<Rightarrow> uint \<Rightarrow> bytes \<times> fstream" where
  "readFile file pos sz =
     (if failbit file then (replicate (unat sz) 0, file)
      else
        let got = take (unat sz) (drop (unat pos) (contents file)) in
        if length got = unat sz then (got, file)
        else (got @ replicate (unat sz - length got) 0, file\<lparr>failbit := True\<rparr>))"

text \<open>
  \<^verbatim>\<open>getInt\<close> and \<^verbatim>\<open>putInt\<close>, little endian, with the cursor advanced by four. The
  cursor is a \<^verbatim>\<open>uint\<close> in the source and a natural number here: an access is in
  bounds only below the buffer's length, and no buffer of the program has \<open>2 ^ 32\<close>
  bytes or more unless the package has more than \<open>2 ^ 32 div 24\<close> entries.
\<close>

definition getInt :: "bytes \<Rightarrow> nat \<Rightarrow> error + (uint \<times> nat)" where
  "getInt buf pos =
     (if pos + 3 < length buf
      then Inr (ucast (buf ! pos) OR push_bit 8 (ucast (buf ! (pos + 1)))
                OR push_bit 16 (ucast (buf ! (pos + 2))) OR push_bit 24 (ucast (buf ! (pos + 3))),
                pos + 4)
      else Inl OutOfBounds)"

definition putInt :: "bytes \<Rightarrow> nat \<Rightarrow> uint \<Rightarrow> error + (bytes \<times> nat)" where
  "putInt buf pos n =
     (if pos + 3 < length buf
      then Inr (buf[pos := ucast n, pos + 1 := ucast (drop_bit 8 n),
                    pos + 2 := ucast (drop_bit 16 n), pos + 3 := ucast (drop_bit 24 n)],
                pos + 4)
      else Inl OutOfBounds)"

fun getInts :: "bytes \<Rightarrow> nat \<Rightarrow> nat \<Rightarrow> error + (uint list \<times> nat)" where
  "getInts buf pos 0 = Inr ([], pos)"
| "getInts buf pos (Suc k) =
     bindE (getInt buf pos) (\<lambda>(v, pos).
     bindE (getInts buf pos k) (\<lambda>(vs, pos). Inr (v # vs, pos)))"

fun putInts :: "bytes \<Rightarrow> nat \<Rightarrow> uint list \<Rightarrow> error + (bytes \<times> nat)" where
  "putInts buf pos [] = Inr (buf, pos)"
| "putInts buf pos (n # ns) = bindE (putInt buf pos n) (\<lambda>(buf, pos). putInts buf pos ns)"

definition DBPF_MAGIC :: uint where "DBPF_MAGIC = 0x46504244"
definition SIGNATURE :: uint where "SIGNATURE = 0x35475242"
definition CLST_TYPE :: uint where "CLST_TYPE = 0xE86B1EEF"

section \<open>The package and its reader\<close>

text \<open>
  \<^verbatim>\<open>compressedEntries\<close> is an \<^verbatim>\<open>unordered_set\<close> whose hash and equality look at type,
  group, instance and resource only: a map from that key to the uncompressed size.
  \<^verbatim>\<open>insert\<close> leaves an element with an equal key in place.
\<close>

type_synonym tgir = "uint \<times> uint \<times> uint \<times> uint"

record Package =
  unpacked :: bool
  signature_in_package :: bool
  header :: Header
  entries :: "Entry list"
  holes :: "Hole list"
  compressedEntries :: "tgir \<rightharpoonup> uint"

definition key :: "Entry \<Rightarrow> tgir" where
  "key e = (e_type e, e_group e, e_instance e, e_resource e)"

definition emptyHeader :: Header where
  "emptyHeader = \<lparr>majorVersion = 0, minorVersion = 0, majorUserVersion = 0, minorUserVersion = 0,
     flags = 0, createdDate = 0, modifiedDate = 0, indexMajorVersion = 0, indexEntryCount = 0,
     indexLocation = 0, indexSize = 0, holeIndexEntryCount = 0, holeIndexLocation = 0,
     holeIndexSize = 0, indexMinorVersion = 0, remainder = []\<rparr>"

text \<open>\<^verbatim>\<open>Package{false}\<close>, the value returned on every rejection.\<close>

definition rejected :: Package where
  "rejected = \<lparr>unpacked = False, signature_in_package = False, header = emptyHeader,
     entries = [], holes = [], compressedEntries = Map.empty\<rparr>"

text \<open>The fifteen header words after the magic number, in the order they are read.\<close>

definition makeHeader :: "uint list \<Rightarrow> bytes \<Rightarrow> Header" where
  "makeHeader ws rest = \<lparr>majorVersion = ws ! 0, minorVersion = ws ! 1, majorUserVersion = ws ! 2,
     minorUserVersion = ws ! 3, flags = ws ! 4, createdDate = ws ! 5, modifiedDate = ws ! 6,
     indexMajorVersion = ws ! 7, indexEntryCount = ws ! 8, indexLocation = ws ! 9,
     indexSize = ws ! 10, holeIndexEntryCount = ws ! 11, holeIndexLocation = ws ! 12,
     holeIndexSize = ws ! 13, indexMinorVersion = ws ! 14, remainder = rest\<rparr>"

text \<open>The loop over the hole index.\<close>

fun readHoles :: "bytes \<Rightarrow> nat \<Rightarrow> nat \<Rightarrow> error + Hole list" where
  "readHoles buffer pos 0 = Inr []"
| "readHoles buffer pos (Suc k) =
     bindE (getInt buffer pos) (\<lambda>(location, pos).
     bindE (getInt buffer pos) (\<lambda>(sz, pos).
     bindE (readHoles buffer pos k) (\<lambda>hs.
       Inr (\<lparr>h_location = location, h_size = sz\<rparr> # hs))))"

text \<open>
  The check for the compressor's signature: \<open>None\<close> is the early
  \<^verbatim>\<open>return Package{false}\<close>, otherwise the new value of \<^verbatim>\<open>signature_in_package\<close>.
\<close>

definition checkSignature ::
  "fstream \<Rightarrow> uint \<Rightarrow> Header \<Rightarrow> Hole list \<Rightarrow> error + (bool option \<times> fstream)" where
  "checkSignature file fileSize hdr hs =
     (if holeIndexEntryCount hdr = 1 \<and> h_size (hs ! 0) = 8 then
        let hole = hs ! 0 in
        if h_location hole > fileSize \<or> h_location hole + h_size hole > fileSize
        then Inr (None, file)
        else
          let (buffer, file) = readFile file (h_location hole) 8 in
          bindE (getInt buffer 0) (\<lambda>(sig, pos).
          bindE (getInt buffer pos) (\<lambda>(fileSizeInHole, pos).
            Inr (Some (sig = SIGNATURE \<and> fileSizeInHole = fileSize), file)))
      else Inr (Some False, file))"

definition makeEntry :: "uint \<Rightarrow> uint \<Rightarrow> uint \<Rightarrow> uint \<Rightarrow> uint \<Rightarrow> uint \<Rightarrow> Entry" where
  "makeEntry ty grp inst resource location sz =
     \<lparr>e_type = ty, e_group = grp, e_instance = inst, e_resource = resource,
      e_location = location, e_size = sz, uncompressedSize = 0, compressed = False,
      repeated = False\<rparr>"

text \<open>
  The loop over the index: \<open>k\<close> iterations are left, \<open>es\<close> are the entries pushed so
  far and \<open>clst\<close> is \<^verbatim>\<open>clstContent\<close>. \<open>None\<close> is the early \<^verbatim>\<open>return Package{false}\<close>.
\<close>

fun readIndex ::
  "fstream \<Rightarrow> uint \<Rightarrow> uint \<Rightarrow> bytes \<Rightarrow> nat \<Rightarrow> nat \<Rightarrow> Entry list \<Rightarrow> bytes
     \<Rightarrow> error + (Entry list \<times> bytes \<times> fstream) option" where
  "readIndex file fileSize minor buffer pos 0 es clst = Inr (Some (es, clst, file))"
| "readIndex file fileSize minor buffer pos (Suc k) es clst =
     bindE (getInt buffer pos) (\<lambda>(ty, pos).
     bindE (getInt buffer pos) (\<lambda>(grp, pos).
     bindE (getInt buffer pos) (\<lambda>(inst, pos).
     bindE (if minor = 2 then getInt buffer pos else Inr (0, pos)) (\<lambda>(resource, pos).
     bindE (getInt buffer pos) (\<lambda>(location, pos).
     bindE (getInt buffer pos) (\<lambda>(sz, pos).
       if location > fileSize \<or> location + sz > fileSize then Inr None
       else if ty = CLST_TYPE then
         let (content, file) = readFile file location sz
         in readIndex file fileSize minor buffer pos k es content
       else
         readIndex file fileSize minor buffer pos k
           (es @ [makeEntry ty grp inst resource location sz]) clst))))))"

text \<open>
  The directory of compressed files: \<^verbatim>\<open>while(pos < clstContent.size())\<close>. The context
  rule lets the termination proof see that \<^verbatim>\<open>getInt\<close> has advanced the cursor.
\<close>

lemma bindE_cong [fundef_cong]:
  "m = m' \<Longrightarrow> (\<And>x. m' = Inr x \<Longrightarrow> f x = f' x) \<Longrightarrow> bindE m f = bindE m' f'"
  by (cases m') (simp_all add: bindE_def)

definition insertCompressedEntry :: "(tgir \<rightharpoonup> uint) \<Rightarrow> tgir \<Rightarrow> uint \<Rightarrow> (tgir \<rightharpoonup> uint)" where
  "insertCompressedEntry m k us = (if m k = None then m(k \<mapsto> us) else m)"

function readClst :: "uint \<Rightarrow> bytes \<Rightarrow> nat \<Rightarrow> (tgir \<rightharpoonup> uint) \<Rightarrow> error + (tgir \<rightharpoonup> uint)" where
  "readClst minor clst pos m =
     (if pos < length clst then
        bindE (getInt clst pos) (\<lambda>(ty, pos1).
        bindE (getInt clst pos1) (\<lambda>(grp, pos2).
        bindE (getInt clst pos2) (\<lambda>(inst, pos3).
        bindE (if minor = 2 then getInt clst pos3 else Inr (0, pos3)) (\<lambda>(resource, pos4).
        bindE (getInt clst pos4) (\<lambda>(us, pos5).
          readClst minor clst pos5 (insertCompressedEntry m (ty, grp, inst, resource) us))))))
      else Inr m)"
  by pat_completeness auto
termination
  by (relation "measure (\<lambda>(minor, clst, pos, m). length clst - pos)")
     (auto simp: getInt_def split: if_splits)

declare readClst.simps [simp del]

text \<open>The loop that checks, for each entry, whether the directory lists it.\<close>

definition markCompressed :: "(tgir \<rightharpoonup> uint) \<Rightarrow> Entry \<Rightarrow> Entry" where
  "markCompressed m e =
     (case m (key e) of
        None \<Rightarrow> e\<lparr>compressed := False\<rparr>
      | Some us \<Rightarrow> e\<lparr>compressed := True, uncompressedSize := us\<rparr>)"

text \<open>
  The loop that marks entries with the same type, group, instance and resource:
  \<open>k\<close> iterations are left, \<open>i\<close> is the loop index and \<open>m\<close> is \<^verbatim>\<open>entriesMap\<close>.
\<close>

fun markRepeated :: "nat \<Rightarrow> nat \<Rightarrow> (tgir \<rightharpoonup> nat) \<Rightarrow> Entry list \<Rightarrow> Entry list" where
  "markRepeated 0 i m es = es"
| "markRepeated (Suc k) i m es =
     (case m (key (es ! i)) of
        Some j \<Rightarrow>
          markRepeated k (i + 1) m
            (es[i := (es ! i)\<lparr>repeated := True\<rparr>, j := (es[i := (es ! i)\<lparr>repeated := True\<rparr>] ! j)\<lparr>repeated := True\<rparr>])
      | None \<Rightarrow> markRepeated k (i + 1) (m(key (es ! i) \<mapsto> i)) es)"

text \<open>
  \<^verbatim>\<open>getPackage\<close>, one definition for each of its parts, last part first: the
  directory of compressed files with the two marking loops (\<open>finishPackage\<close>), the
  index (\<open>getPackageIndex\<close>), the holes and the signature (\<open>getPackageBody\<close>), the
  checks of the header (\<open>checkHeader\<close>), and the function itself. The result
  carries the stream, whose fail bit the later reads of the same file see.
  \<^verbatim>\<open>reserve\<close> calls and console output are left out.
\<close>

definition finishPackage ::
  "fstream \<Rightarrow> Header \<Rightarrow> Mode \<Rightarrow> Hole list \<Rightarrow> bool \<Rightarrow> Entry list \<Rightarrow> bytes
     \<Rightarrow> error + (Package \<times> fstream)" where
  "finishPackage file hdr mode hs signature es clstContent =
     bindE (if length clstContent > 0
            then readClst (indexMinorVersion hdr) clstContent 0 Map.empty
            else Inr Map.empty) (\<lambda>ces.
       let es1 = (if length clstContent > 0 then map (markCompressed ces) es else es);
           es2 = (if mode = RECOMPRESS
                  then markRepeated (length es1) 0 Map.empty es1 else es1)
       in Inr (\<lparr>unpacked = True, signature_in_package = signature, header = hdr,
                 entries = es2, holes = hs, compressedEntries = ces\<rparr>, file))"

definition getPackageIndex ::
  "fstream \<Rightarrow> uint \<Rightarrow> Header \<Rightarrow> Mode \<Rightarrow> Hole list \<Rightarrow> bool \<Rightarrow> error + (Package \<times> fstream)" where
  "getPackageIndex file fileSize hdr mode hs signature =
     (let (buffer, file) = readFile file (indexLocation hdr) (indexSize hdr) in
      bindE (readIndex file fileSize (indexMinorVersion hdr) buffer 0
               (unat (indexEntryCount hdr)) [] []) (\<lambda>r.
        case r of
          None \<Rightarrow> Inr (rejected, file)
        | Some (es, clstContent, file) \<Rightarrow>
            finishPackage file hdr mode hs signature es clstContent))"

definition getPackageBody ::
  "fstream \<Rightarrow> uint \<Rightarrow> Header \<Rightarrow> Mode \<Rightarrow> error + (Package \<times> fstream)" where
  "getPackageBody file fileSize hdr mode =
     (let (buffer, file) = readFile file (holeIndexLocation hdr) (holeIndexSize hdr) in
      bindE (readHoles buffer 0 (unat (holeIndexEntryCount hdr))) (\<lambda>hs.
      bindE (checkSignature file fileSize hdr hs) (\<lambda>(sig, file).
        case sig of
          None \<Rightarrow> Inr (rejected, file)
        | Some signature \<Rightarrow> getPackageIndex file fileSize hdr mode hs signature)))"

definition checkHeader ::
  "fstream \<Rightarrow> uint \<Rightarrow> Header \<Rightarrow> Mode \<Rightarrow> error + (Package \<times> fstream)" where
  "checkHeader file fileSize hdr mode =
     (if majorVersion hdr \<noteq> 1
         \<or> (minorVersion hdr \<noteq> 0 \<and> minorVersion hdr \<noteq> 1 \<and> minorVersion hdr \<noteq> 2)
         \<or> indexMajorVersion hdr \<noteq> 7
      then Inr (rejected, file)
      else if indexMinorVersion hdr > 2 then Inr (rejected, file)
      else if indexLocation hdr > fileSize
              \<or> indexLocation hdr + indexSize hdr > fileSize
      then Inr (rejected, file)
      else
        let indexEntryCountToIndexSize =
              (if indexMinorVersion hdr = 2 then indexEntryCount hdr * 4 * 6
               else indexEntryCount hdr * 4 * 5)
        in
        if indexEntryCountToIndexSize > indexSize hdr then Inr (rejected, file)
        else if holeIndexLocation hdr > fileSize
                \<or> holeIndexLocation hdr + holeIndexSize hdr > fileSize
        then Inr (rejected, file)
        else if holeIndexEntryCount hdr * 8 \<noteq> holeIndexSize hdr
        then Inr (rejected, file)
        else getPackageBody file fileSize hdr mode)"

definition getPackage :: "fstream \<Rightarrow> Mode \<Rightarrow> error + (Package \<times> fstream)" where
  "getPackage file mode =
     (let fileSize = getFileSize file in
      if fileSize < 96 then Inr (rejected, file)
      else
        let (buffer, file) = readFile file 0 96 in
        bindE (getInt buffer 0) (\<lambda>(magic, pos).
          if magic \<noteq> DBPF_MAGIC then Inr (rejected, file)
          else
            bindE (getInts buffer pos 15) (\<lambda>(ws, pos).
              checkHeader file fileSize (makeHeader ws (drop 64 buffer)) mode)))"

section \<open>The writer\<close>

text \<open>
  The 96 bytes written first: nine words, 24 bytes skipped, the index minor version
  at offset 60, and \<^verbatim>\<open>copy\<close> of the remainder to offset 64, which runs past the
  buffer when the remainder has more than 32 bytes.
\<close>

definition writeHeader :: "Header \<Rightarrow> error + bytes" where
  "writeHeader hdr =
     bindE (putInts (replicate 96 0) 0
              [DBPF_MAGIC, majorVersion hdr, minorVersion hdr, majorUserVersion hdr,
               minorUserVersion hdr, flags hdr, createdDate hdr, modifiedDate hdr,
               indexMajorVersion hdr]) (\<lambda>(buffer, pos).
     bindE (putInt buffer (pos + 24) (indexMinorVersion hdr)) (\<lambda>(buffer, pos).
       if length (remainder hdr) > 32 then Inl OutOfBounds
       else Inr (take 64 buffer @ remainder hdr @ drop (64 + length (remainder hdr)) buffer)))"

definition transformEntry ::
  "compressor \<Rightarrow> decompressor \<Rightarrow> Mode \<Rightarrow> Entry \<Rightarrow> bytes \<Rightarrow> error + (Entry \<times> bytes)" where
  "transformEntry qc qd mode entry content =
     (case mode of
        RECOMPRESS \<Rightarrow> recompressEntry qc qd entry content
      | DECOMPRESS \<Rightarrow> decompressEntry qd entry content
      | SKIP \<Rightarrow> Inr (entry, content))"

text \<open>
  The loop over the entries. The source runs its iterations under
  \<^verbatim>\<open>#pragma omp parallel for\<close>, with one lock around the read of the old file and one
  around \<^verbatim>\<open>tellp\<close> and the write to the new file; the model runs them in index order,
  which is one of the orders the locks allow. \<open>newFile\<close> is what has been written
  so far, \<^verbatim>\<open>tellp\<close> its length.
\<close>

fun writeEntries ::
  "compressor \<Rightarrow> decompressor \<Rightarrow> Mode \<Rightarrow> fstream \<Rightarrow> bytes \<Rightarrow> Entry list
     \<Rightarrow> error + (Entry list \<times> bytes \<times> fstream)" where
  "writeEntries qc qd mode oldFile newFile [] = Inr ([], newFile, oldFile)"
| "writeEntries qc qd mode oldFile newFile (entry # rest) =
     (let (content, oldFile) = readFile oldFile (e_location entry) (e_size entry) in
      bindE (transformEntry qc qd mode entry content) (\<lambda>(entry, content).
      bindE (if compressed entry then getUncompressedSize content
             else Inr (uncompressedSize entry)) (\<lambda>us.
        let entry = entry\<lparr>e_size := of_nat (length content), uncompressedSize := us,
                            e_location := of_nat (length newFile)\<rparr>
        in bindE (writeEntries qc qd mode oldFile (newFile @ content) rest)
             (\<lambda>(rest, newFile, oldFile). Inr (entry # rest, newFile, oldFile)))))"

text \<open>The loops that fill the directory of compressed files and the index.\<close>

fun putClst :: "uint \<Rightarrow> bytes \<Rightarrow> nat \<Rightarrow> Entry list \<Rightarrow> error + (bytes \<times> nat)" where
  "putClst minor buf pos [] = Inr (buf, pos)"
| "putClst minor buf pos (entry # rest) =
     (if compressed entry then
        bindE (putInts buf pos
                 ([e_type entry, e_group entry, e_instance entry]
                  @ (if minor = 2 then [e_resource entry] else [])
                  @ [uncompressedSize entry])) (\<lambda>(buf, pos). putClst minor buf pos rest)
      else putClst minor buf pos rest)"

fun putIndex :: "uint \<Rightarrow> bytes \<Rightarrow> nat \<Rightarrow> Entry list \<Rightarrow> error + (bytes \<times> nat)" where
  "putIndex minor buf pos [] = Inr (buf, pos)"
| "putIndex minor buf pos (entry # rest) =
     bindE (putInts buf pos
              ([e_type entry, e_group entry, e_instance entry]
               @ (if minor = 2 then [e_resource entry] else [])
               @ [e_location entry, e_size entry])) (\<lambda>(buf, pos). putIndex minor buf pos rest)"

text \<open>
  \<^verbatim>\<open>putPackage\<close> after the loop over the entries, one definition for each of its
  commented parts: the directory of compressed files, the index, the compressor's
  signature with the hole index, and the update of the header at offset 36.
  \<open>newFile\<close> is what has been written so far.
\<close>

definition writeClst :: "uint \<Rightarrow> bytes \<Rightarrow> Entry list \<Rightarrow> error + (bytes \<times> Entry list)" where
  "writeClst minor newFile es =
     (let clstContent = replicate (length es * 4 * (if minor = 2 then 5 else 4)) 0;
          clst = makeEntry CLST_TYPE CLST_TYPE 0x286B1F03 0 (of_nat (length newFile)) 0
      in
      bindE (putClst minor clstContent 0 es) (\<lambda>(clstContent, pos).
        let clst = clst\<lparr>e_size := of_nat pos\<rparr> in
        if e_size clst > 0
        then Inr (newFile @ resize (unat (e_size clst)) clstContent, es @ [clst])
        else Inr (newFile, es)))"

definition writeIndex :: "uint \<Rightarrow> bytes \<Rightarrow> Entry list \<Rightarrow> error + bytes" where
  "writeIndex minor newFile es =
     (let buffer = replicate (length es * 4 * (if minor = 2 then 6 else 5)) 0 in
      bindE (putIndex minor buffer 0 es) (\<lambda>(buffer, pos). Inr (newFile @ buffer)))"

definition writeSignature :: "Mode \<Rightarrow> bytes \<Rightarrow> uint \<Rightarrow> error + bytes" where
  "writeSignature mode newFile holeIndexLoc =
     (if mode = RECOMPRESS then
        let holeLocation = holeIndexLoc + 8;
            fileSize = holeLocation + 8
        in bindE (putInts (replicate 16 0) 0 [holeLocation, 8, SIGNATURE, fileSize])
             (\<lambda>(buffer, pos). Inr (newFile @ buffer))
      else Inr newFile)"

definition updateHeader ::
  "Mode \<Rightarrow> bytes \<Rightarrow> nat \<Rightarrow> uint \<Rightarrow> uint \<Rightarrow> uint \<Rightarrow> error + bytes" where
  "updateHeader mode newFile entryCount indexStart indexEnd holeIndexLoc =
     bindE (putInts (replicate 24 0) 0
              ([of_nat entryCount, indexStart, indexEnd - indexStart]
               @ (if mode = RECOMPRESS then [1, holeIndexLoc, 8] else [])))
       (\<lambda>(buffer, pos). Inr (take 36 newFile @ buffer @ drop 60 newFile))"

text \<open>
  \<^verbatim>\<open>putPackage\<close>. The result is the new file as it is on disk afterwards, the
  package as the function leaves it, and the stream of the old file.
\<close>

definition putPackage ::
  "compressor \<Rightarrow> decompressor \<Rightarrow> fstream \<Rightarrow> Package \<Rightarrow> Mode
     \<Rightarrow> error + (bytes \<times> Package \<times> fstream)" where
  "putPackage qc qd oldFile package mode =
     bindE (writeHeader (header package)) (\<lambda>newFile.
     bindE (writeEntries qc qd mode oldFile newFile (entries package)) (\<lambda>(es, newFile, oldFile).
     bindE (writeClst (indexMinorVersion (header package)) newFile es) (\<lambda>(newFile, es).
       let indexStart = (of_nat (length newFile) :: uint) in
       bindE (writeIndex (indexMinorVersion (header package)) newFile es) (\<lambda>newFile.
         let indexEnd = (of_nat (length newFile) :: uint);
             holeIndexLoc = indexEnd
         in
         bindE (writeSignature mode newFile holeIndexLoc) (\<lambda>newFile.
         bindE (updateHeader mode newFile (length es) indexStart indexEnd holeIndexLoc)
           (\<lambda>newFile. Inr (newFile, package\<lparr>entries := es\<rparr>, oldFile)))))))"

section \<open>The validator and the loop body of main\<close>

fun validateEntries ::
  "decompressor \<Rightarrow> (tgir \<rightharpoonup> uint) \<Rightarrow> fstream \<Rightarrow> fstream \<Rightarrow> Entry list \<Rightarrow> Entry list
     \<Rightarrow> error + bool" where
  "validateEntries qd ces oldFile newFile [] news = Inr True"
| "validateEntries qd ces oldFile newFile (oldEntry # olds) [] = Inl OutOfBounds"
| "validateEntries qd ces oldFile newFile (oldEntry # olds) (newEntry # news) =
     (if e_type oldEntry \<noteq> e_type newEntry \<or> e_group oldEntry \<noteq> e_group newEntry
         \<or> e_instance oldEntry \<noteq> e_instance newEntry \<or> e_resource oldEntry \<noteq> e_resource newEntry
      then Inr False
      else
        let (oldContent, oldFile) = readFile oldFile (e_location oldEntry) (e_size oldEntry);
            (newContent, newFile) = readFile newFile (e_location newEntry) (e_size newEntry);
            compressed_in_header =
              (length newContent \<ge> 9 \<and> newContent ! 4 = 0x10 \<and> newContent ! 5 = 0xFB);
            iter = ces (key newEntry);
            in_clst = (iter \<noteq> None)
        in
        if compressed_in_header \<noteq> in_clst then Inr False
        else
          bindE (if compressed newEntry then
                   bindE (getUncompressedSize newContent) (\<lambda>us.
                   bindE (getInt newContent 0) (\<lambda>(compressedSize, tempPos).
                     case iter of
                       None \<Rightarrow> Inl InvalidIterator
                     | Some clstSize \<Rightarrow>
                         if us \<noteq> clstSize then Inr False
                         else if compressedSize \<noteq> e_size newEntry then Inr False
                         else if compressedSize > us then Inr False
                         else Inr True))
                 else Inr True) (\<lambda>ok.
            if \<not> ok then Inr False
            else
              bindE (decompressEntry qd oldEntry oldContent) (\<lambda>(oldEntry, oldContent).
              bindE (decompressEntry qd newEntry newContent) (\<lambda>(newEntry, newContent).
                if oldContent \<noteq> newContent then Inr False
                else validateEntries qd ces oldFile newFile olds news))))"

definition validatePackage ::
  "decompressor \<Rightarrow> Package \<Rightarrow> Package \<Rightarrow> fstream \<Rightarrow> fstream \<Rightarrow> Mode \<Rightarrow> error + bool" where
  "validatePackage qd oldPackage newPackage oldFile newFile mode =
     (if \<not> unpacked newPackage then Inr False
      else
        let (oldHeader, oldFile) = readFile oldFile 0 96;
            (newHeader, newFile) = readFile newFile 0 96
        in
        if take 36 oldHeader \<noteq> take 36 newHeader \<or> drop 60 oldHeader \<noteq> drop 60 newHeader
        then Inr False
        else
          bindE (if mode = RECOMPRESS then
                   if holeIndexEntryCount (header newPackage) \<noteq> 1 then Inr (False, newFile)
                   else if holeIndexSize (header newPackage) \<noteq> 8 then Inr (False, newFile)
                   else if holes newPackage = [] then Inl OutOfBounds
                   else
                     let hole = holes newPackage ! 0 in
                     if h_size hole \<noteq> 8 then Inr (False, newFile)
                     else
                       let (holeData, newFile) = readFile newFile (h_location hole) 8 in
                       bindE (getInt holeData 0) (\<lambda>(sig, pos).
                         if sig \<noteq> SIGNATURE then Inr (False, newFile)
                         else
                           bindE (getInt holeData pos) (\<lambda>(fileSizeInHole, pos).
                             let fileSize = getFileSize newFile in
                             if fileSizeInHole \<noteq> fileSize then Inr (False, newFile)
                             else Inr (True, newFile)))
                 else Inr (True, newFile)) (\<lambda>(ok, newFile).
            if \<not> ok then Inr False
            else if length (entries oldPackage) \<noteq> length (entries newPackage) then Inr False
            else validateEntries qd (compressedEntries newPackage) oldFile newFile
                   (entries oldPackage) (entries newPackage)))"

text \<open>
  One iteration of the loop of \<^verbatim>\<open>main\<close> over the package files: what happens to
  the file on disk. Failures to open, create or rename a file are left out.
\<close>

datatype outcome = Unreadable | Skipped | Invalid | Replaced bytes

text \<open>
  The block under \<^verbatim>\<open>if(mode != dbpf::SKIP)\<close>: write the temporary file, read it
  back, validate it, and replace the old file or delete the temporary one.
\<close>

definition writeAndValidate ::
  "compressor \<Rightarrow> decompressor \<Rightarrow> Mode \<Rightarrow> Package \<Rightarrow> Package \<Rightarrow> fstream \<Rightarrow> error + outcome" where
  "writeAndValidate qc qd mode oldPackage package file =
     bindE (putPackage qc qd file package mode) (\<lambda>(tempData, package, file).
     bindE (getPackage (openFile tempData) mode) (\<lambda>(newPackage, tempFile).
     bindE (validatePackage qd oldPackage newPackage file tempFile mode) (\<lambda>is_valid.
       if \<not> is_valid then Inr Invalid else Inr (Replaced tempData))))"

definition processFile ::
  "compressor \<Rightarrow> decompressor \<Rightarrow> Mode \<Rightarrow> bytes \<Rightarrow> error + outcome" where
  "processFile qc qd default_mode fileData =
     bindE (getPackage (openFile fileData) default_mode) (\<lambda>(package, file).
       let oldPackage = package;
           mode = (if default_mode = RECOMPRESS \<and> signature_in_package package
                   then SKIP else default_mode)
       in
       if \<not> unpacked package then Inr Unreadable
       else
         let mode = (if mode = DECOMPRESS \<and> list_all (\<lambda>entry. \<not> compressed entry) (entries package)
                     then SKIP else mode)
         in
         if mode \<noteq> SKIP then writeAndValidate qc qd mode oldPackage package file
         else Inr Skipped)"

section \<open>The codec of the spec\<close>

text \<open>
  Modelled from the spec: \<^verbatim>\<open>qfs_decompress\<close> of \<^verbatim>\<open>qfs.h\<close>, which is not among the
  sources. The spec's section 4.2 gives the five opcode families and the algorithm:
  read an opcode, copy \<open>plain\<close> bytes from the input, then copy \<open>count\<close> bytes from
  \<open>offset\<close> bytes back in the output, one byte at a time; the terminator ends the
  stream after its literal run. Decompression fails when an opcode or a literal run
  reads past the input, when a copy reads before the start of the output, or when
  the produced length is not the declared one. The opcode stream starts after the
  9-byte framing header.
\<close>

fun copyBack :: "nat \<Rightarrow> nat \<Rightarrow> bytes \<Rightarrow> bytes" where
  "copyBack 0 offset out = out"
| "copyBack (Suc count) offset out = copyBack count offset (out @ [out ! (length out - offset)])"

definition applyOpcode ::
  "nat \<Rightarrow> nat \<Rightarrow> nat \<Rightarrow> bytes \<Rightarrow> bytes \<Rightarrow> (bytes \<times> bytes) option" where
  "applyOpcode plain count offset inp out =
     (if length inp < plain then None
      else
        let out1 = out @ take plain inp in
        if count > 0 \<and> length out1 < offset then None
        else Some (drop plain inp, copyBack count offset out1))"

function decodeStream :: "bytes \<Rightarrow> bytes \<Rightarrow> bytes option" where
  "decodeStream [] out = None"
| "decodeStream (b0 # inp) out =
     (let c0 = unat b0 in
      if c0 < 0x80 then
        (case inp of
           b1 # inp1 \<Rightarrow>
             (case applyOpcode (c0 mod 4) ((c0 div 4) mod 8 + 3)
                     ((c0 div 32) mod 4 * 256 + unat b1 + 1) inp1 out of
                None \<Rightarrow> None
              | Some (inp', out') \<Rightarrow> decodeStream inp' out')
         | _ \<Rightarrow> None)
      else if c0 < 0xC0 then
        (case inp of
           b1 # b2 # inp1 \<Rightarrow>
             (case applyOpcode (unat b1 div 64) (c0 mod 64 + 4)
                     (unat b1 mod 64 * 256 + unat b2 + 1) inp1 out of
                None \<Rightarrow> None
              | Some (inp', out') \<Rightarrow> decodeStream inp' out')
         | _ \<Rightarrow> None)
      else if c0 < 0xE0 then
        (case inp of
           b1 # b2 # b3 # inp1 \<Rightarrow>
             (case applyOpcode (c0 mod 4) ((c0 div 4) mod 4 * 256 + unat b3 + 5)
                     ((c0 div 16) mod 2 * 65536 + unat b1 * 256 + unat b2 + 1) inp1 out of
                None \<Rightarrow> None
              | Some (inp', out') \<Rightarrow> decodeStream inp' out')
         | _ \<Rightarrow> None)
      else if c0 < 0xFC then
        (case applyOpcode ((c0 mod 32) * 4 + 4) 0 0 inp out of
           None \<Rightarrow> None
         | Some (inp', out') \<Rightarrow> decodeStream inp' out')
      else
        (case applyOpcode (c0 mod 4) 0 0 inp out of
           None \<Rightarrow> None
         | Some (inp', out') \<Rightarrow> Some out'))"
  by pat_completeness auto
termination
  by (relation "measure (\<lambda>(inp, out). length inp)")
     (auto simp: applyOpcode_def Let_def split: if_splits)

definition qfs_decompress :: decompressor where
  "qfs_decompress src dstlen =
     (case decodeStream (drop 9 src) [] of
        None \<Rightarrow> (False, [])
      | Some out \<Rightarrow> if length out = dstlen then (True, out) else (False, []))"

text \<open>A compressor that finds nothing to gain: it returns 0 and leaves the buffer alone.\<close>

definition noCompression :: compressor where
  "noCompression src dstlen = (0, replicate dstlen 0)"

section \<open>Example data\<close>

text \<open>
  A compressed payload of 18 bytes (a literal run of four bytes and a copy of 14
  bytes from one byte back) that decodes to 18 bytes, and a payload with the same
  framing header whose literal run is cut short.
\<close>

definition payload18 :: bytes where
  "payload18 = [18, 0, 0, 0, 0x10, 0xFB, 0, 0, 18, 0xE0, 1, 2, 3, 4, 0x8A, 0, 0, 0xFC]"

definition corrupt12 :: bytes where
  "corrupt12 = [12, 0, 0, 0, 0x10, 0xFB, 0, 0, 18, 0xE0, 1, 2]"

definition entryA :: Entry where
  "entryA = \<lparr>e_type = 1, e_group = 2, e_instance = 3, e_resource = 0, e_location = 96,
     e_size = 18, uncompressedSize = 18, compressed = True, repeated = False\<rparr>"

text \<open>
  A file with one uncompressed entry of four bytes, followed by the index, a hole
  index with one hole, and a hole that holds the signature and a stored size that is
  one more than the 136 bytes of the file.
\<close>

definition staleFile :: bytes where
  "staleFile =
  [68, 66, 80, 70, 1, 0, 0, 0, 1, 0, 0, 0, 0, 0, 0, 0, 0, 0, 0, 0,
   0, 0, 0, 0, 0, 0, 0, 0, 0, 0, 0, 0, 7, 0, 0, 0, 1, 0, 0, 0,
   100, 0, 0, 0, 20, 0, 0, 0, 1, 0, 0, 0, 120, 0, 0, 0, 8, 0, 0, 0,
   1, 0, 0, 0, 0, 0, 0, 0, 0, 0, 0, 0, 0, 0, 0, 0, 0, 0, 0, 0,
   0, 0, 0, 0, 0, 0, 0, 0, 0, 0, 0, 0, 0, 0, 0, 0, 1, 2, 3, 4,
   1, 0, 0, 0, 2, 0, 0, 0, 3, 0, 0, 0, 96, 0, 0, 0, 4, 0, 0, 0,
   128, 0, 0, 0, 8, 0, 0, 0, 66, 82, 71, 53, 137, 0, 0, 0]"

text \<open>
  A file with one compressed entry whose payload is \<open>payload18\<close> (18 bytes that decode
  to 18 bytes), its directory of compressed files and its index; and the same
  archive with the hole index and the signature after the index.
\<close>

definition equalFile :: bytes where
  "equalFile =
  [68, 66, 80, 70, 1, 0, 0, 0, 1, 0, 0, 0, 0, 0, 0, 0, 0, 0, 0, 0,
   0, 0, 0, 0, 0, 0, 0, 0, 0, 0, 0, 0, 7, 0, 0, 0, 2, 0, 0, 0,
   130, 0, 0, 0, 40, 0, 0, 0, 0, 0, 0, 0, 0, 0, 0, 0, 0, 0, 0, 0,
   1, 0, 0, 0, 0, 0, 0, 0, 0, 0, 0, 0, 0, 0, 0, 0, 0, 0, 0, 0,
   0, 0, 0, 0, 0, 0, 0, 0, 0, 0, 0, 0, 0, 0, 0, 0, 18, 0, 0, 0,
   16, 251, 0, 0, 18, 224, 1, 2, 3, 4, 138, 0, 0, 252, 1, 0, 0, 0, 2, 0,
   0, 0, 3, 0, 0, 0, 18, 0, 0, 0, 1, 0, 0, 0, 2, 0, 0, 0, 3, 0,
   0, 0, 96, 0, 0, 0, 18, 0, 0, 0, 239, 30, 107, 232, 239, 30, 107, 232, 3, 31,
   107, 40, 114, 0, 0, 0, 16, 0, 0, 0]"

definition equalOut :: bytes where
  "equalOut =
  [68, 66, 80, 70, 1, 0, 0, 0, 1, 0, 0, 0, 0, 0, 0, 0, 0, 0, 0, 0,
   0, 0, 0, 0, 0, 0, 0, 0, 0, 0, 0, 0, 7, 0, 0, 0, 2, 0, 0, 0,
   130, 0, 0, 0, 40, 0, 0, 0, 1, 0, 0, 0, 170, 0, 0, 0, 8, 0, 0, 0,
   1, 0, 0, 0, 0, 0, 0, 0, 0, 0, 0, 0, 0, 0, 0, 0, 0, 0, 0, 0,
   0, 0, 0, 0, 0, 0, 0, 0, 0, 0, 0, 0, 0, 0, 0, 0, 18, 0, 0, 0,
   16, 251, 0, 0, 18, 224, 1, 2, 3, 4, 138, 0, 0, 252, 1, 0, 0, 0, 2, 0,
   0, 0, 3, 0, 0, 0, 18, 0, 0, 0, 1, 0, 0, 0, 2, 0, 0, 0, 3, 0,
   0, 0, 96, 0, 0, 0, 18, 0, 0, 0, 239, 30, 107, 232, 239, 30, 107, 232, 3, 31,
   107, 40, 114, 0, 0, 0, 16, 0, 0, 0, 178, 0, 0, 0, 8, 0, 0, 0, 66, 82,
   71, 53, 186, 0, 0, 0]"

text \<open>
  A file whose directory of compressed files lists its only entry, a payload of four
  bytes.
\<close>

definition shortFile :: bytes where
  "shortFile =
  [68, 66, 80, 70, 1, 0, 0, 0, 1, 0, 0, 0, 0, 0, 0, 0, 0, 0, 0, 0,
   0, 0, 0, 0, 0, 0, 0, 0, 0, 0, 0, 0, 7, 0, 0, 0, 2, 0, 0, 0,
   116, 0, 0, 0, 40, 0, 0, 0, 0, 0, 0, 0, 0, 0, 0, 0, 0, 0, 0, 0,
   1, 0, 0, 0, 0, 0, 0, 0, 0, 0, 0, 0, 0, 0, 0, 0, 0, 0, 0, 0,
   0, 0, 0, 0, 0, 0, 0, 0, 0, 0, 0, 0, 0, 0, 0, 0, 1, 2, 3, 4,
   1, 0, 0, 0, 2, 0, 0, 0, 3, 0, 0, 0, 18, 0, 0, 0, 1, 0, 0, 0,
   2, 0, 0, 0, 3, 0, 0, 0, 96, 0, 0, 0, 4, 0, 0, 0, 239, 30, 107, 232,
   239, 30, 107, 232, 3, 31, 107, 40, 100, 0, 0, 0, 16, 0, 0, 0]"

text \<open>
  A file with one compressed entry whose payload is \<open>corrupt12\<close>, listed in the
  directory of compressed files with the uncompressed size 18; and a file with one
  uncompressed entry of 18 bytes.
\<close>

definition corruptFile :: bytes where
  "corruptFile =
  [68, 66, 80, 70, 1, 0, 0, 0, 1, 0, 0, 0, 0, 0, 0, 0, 0, 0, 0, 0,
   0, 0, 0, 0, 0, 0, 0, 0, 0, 0, 0, 0, 7, 0, 0, 0, 2, 0, 0, 0,
   124, 0, 0, 0, 40, 0, 0, 0, 0, 0, 0, 0, 0, 0, 0, 0, 0, 0, 0, 0,
   1, 0, 0, 0, 0, 0, 0, 0, 0, 0, 0, 0, 0, 0, 0, 0, 0, 0, 0, 0,
   0, 0, 0, 0, 0, 0, 0, 0, 0, 0, 0, 0, 0, 0, 0, 0, 12, 0, 0, 0,
   16, 251, 0, 0, 18, 224, 1, 2, 1, 0, 0, 0, 2, 0, 0, 0, 3, 0, 0, 0,
   18, 0, 0, 0, 1, 0, 0, 0, 2, 0, 0, 0, 3, 0, 0, 0, 96, 0, 0, 0,
   12, 0, 0, 0, 239, 30, 107, 232, 239, 30, 107, 232, 3, 31, 107, 40, 108, 0, 0, 0,
   16, 0, 0, 0]"

definition plainFile :: bytes where
  "plainFile =
  [68, 66, 80, 70, 1, 0, 0, 0, 1, 0, 0, 0, 0, 0, 0, 0, 0, 0, 0, 0,
   0, 0, 0, 0, 0, 0, 0, 0, 0, 0, 0, 0, 7, 0, 0, 0, 1, 0, 0, 0,
   114, 0, 0, 0, 20, 0, 0, 0, 0, 0, 0, 0, 0, 0, 0, 0, 0, 0, 0, 0,
   1, 0, 0, 0, 0, 0, 0, 0, 0, 0, 0, 0, 0, 0, 0, 0, 0, 0, 0, 0,
   0, 0, 0, 0, 0, 0, 0, 0, 0, 0, 0, 0, 0, 0, 0, 0, 1, 2, 3, 4,
   4, 4, 4, 4, 4, 4, 4, 4, 4, 4, 4, 4, 4, 4, 1, 0, 0, 0, 2, 0,
   0, 0, 3, 0, 0, 0, 96, 0, 0, 0, 18, 0, 0, 0]"

text \<open>
  \<open>staleFile\<close> with the stored size set right; and a file with a hole and a stored
  size that is one more than its 144 bytes, whose only entry is not compressed and
  has the payload \<open>corrupt12\<close>, which starts like a compression header.
\<close>

definition staleOut :: bytes where
  "staleOut =
  [68, 66, 80, 70, 1, 0, 0, 0, 1, 0, 0, 0, 0, 0, 0, 0, 0, 0, 0, 0,
   0, 0, 0, 0, 0, 0, 0, 0, 0, 0, 0, 0, 7, 0, 0, 0, 1, 0, 0, 0,
   100, 0, 0, 0, 20, 0, 0, 0, 1, 0, 0, 0, 120, 0, 0, 0, 8, 0, 0, 0,
   1, 0, 0, 0, 0, 0, 0, 0, 0, 0, 0, 0, 0, 0, 0, 0, 0, 0, 0, 0,
   0, 0, 0, 0, 0, 0, 0, 0, 0, 0, 0, 0, 0, 0, 0, 0, 1, 2, 3, 4,
   1, 0, 0, 0, 2, 0, 0, 0, 3, 0, 0, 0, 96, 0, 0, 0, 4, 0, 0, 0,
   128, 0, 0, 0, 8, 0, 0, 0, 66, 82, 71, 53, 136, 0, 0, 0]"

definition staleHeaderFile :: bytes where
  "staleHeaderFile =
  [68, 66, 80, 70, 1, 0, 0, 0, 1, 0, 0, 0, 0, 0, 0, 0, 0, 0, 0, 0,
   0, 0, 0, 0, 0, 0, 0, 0, 0, 0, 0, 0, 7, 0, 0, 0, 1, 0, 0, 0,
   108, 0, 0, 0, 20, 0, 0, 0, 1, 0, 0, 0, 128, 0, 0, 0, 8, 0, 0, 0,
   1, 0, 0, 0, 0, 0, 0, 0, 0, 0, 0, 0, 0, 0, 0, 0, 0, 0, 0, 0,
   0, 0, 0, 0, 0, 0, 0, 0, 0, 0, 0, 0, 0, 0, 0, 0, 12, 0, 0, 0,
   16, 251, 0, 0, 18, 224, 1, 2, 1, 0, 0, 0, 2, 0, 0, 0, 3, 0, 0, 0,
   96, 0, 0, 0, 12, 0, 0, 0, 136, 0, 0, 0, 8, 0, 0, 0, 66, 82, 71, 53,
   145, 0, 0, 0]"

text \<open>
  A compressed payload of 18 bytes that decodes to the seven bytes 1 to 7, and an
  entry that is neither compressed nor repeated.
\<close>

definition payload18b :: bytes where
  "payload18b = [18, 0, 0, 0, 0x10, 0xFB, 0, 0, 7, 0xE0, 1, 2, 3, 4, 0xFF, 5, 6, 7]"

definition entryB :: Entry where
  "entryB = \<lparr>e_type = 1, e_group = 2, e_instance = 3, e_resource = 0, e_location = 96,
     e_size = 0, uncompressedSize = 0, compressed = False, repeated = False\<rparr>"



text \<open>
  What the reader returns for a freshly opened file with the bytes \<open>bs\<close>: the package,
  the stream, and whether it returned at all.
\<close>

definition packageOf :: "bytes \<Rightarrow> Mode \<Rightarrow> Package" where
  "packageOf bs mode = (case getPackage (openFile bs) mode of Inr (p, f) \<Rightarrow> p | Inl e \<Rightarrow> rejected)"

definition streamOf :: "bytes \<Rightarrow> Mode \<Rightarrow> fstream" where
  "streamOf bs mode = (case getPackage (openFile bs) mode of Inr (p, f) \<Rightarrow> f | Inl e \<Rightarrow> openFile bs)"

definition returns :: "error + 'a \<Rightarrow> bool" where
  "returns r = (case r of Inr x \<Rightarrow> True | Inl e \<Rightarrow> False)"

text \<open>
  What the writer leaves behind for the package read from a freshly opened file
  with the bytes \<open>bs\<close>: the new file and the package with its updated entries.
\<close>

definition writtenBytes :: "compressor \<Rightarrow> decompressor \<Rightarrow> bytes \<Rightarrow> Mode \<Rightarrow> bytes" where
  "writtenBytes qc qd bs mode =
     (case putPackage qc qd (streamOf bs mode) (packageOf bs mode) mode of
        Inr (out, p, f) \<Rightarrow> out | Inl e \<Rightarrow> [])"

definition writtenPackage :: "compressor \<Rightarrow> decompressor \<Rightarrow> bytes \<Rightarrow> Mode \<Rightarrow> Package" where
  "writtenPackage qc qd bs mode =
     (case putPackage qc qd (streamOf bs mode) (packageOf bs mode) mode of
        Inr (out, p, f) \<Rightarrow> p | Inl e \<Rightarrow> rejected)"

text \<open>
  The condition that every compressed entry decompresses: read from the old file in
  the order of the entries, as \<open>writeEntries\<close> reads them, the payload of each entry
  that is marked compressed has the nine bytes \<^verbatim>\<open>getUncompressedSize\<close> needs and the
  decompressor reports success on it.
\<close>

fun decodable :: "decompressor \<Rightarrow> fstream \<Rightarrow> Entry list \<Rightarrow> bool" where
  "decodable qd file [] \<longleftrightarrow> True"
| "decodable qd file (entry # rest) \<longleftrightarrow>
     (let (content, file) = readFile file (e_location entry) (e_size entry) in
      (if compressed entry
       then (case getUncompressedSize content of
               Inl err \<Rightarrow> False
             | Inr n \<Rightarrow> fst (qd content (unat n)))
       else True)
      \<and> decodable qd file rest)"

section \<open>Closed forms of what the writer produces\<close>

text \<open>
  The bytes \<^verbatim>\<open>putInt\<close> writes for one word, one record of the directory of compressed
  files, one record of the index, and the whole file \<^verbatim>\<open>putPackage\<close> leaves behind,
  as functions of the header, the mode, the payloads written and the entries after
  the loop. The facts below show that the writer produces exactly these.
\<close>

definition le32 :: "uint \<Rightarrow> bytes" where
  "le32 n = [ucast n, ucast (drop_bit 8 n), ucast (drop_bit 16 n), ucast (drop_bit 24 n)]"

definition headerWords :: "Header \<Rightarrow> uint list" where
  "headerWords hdr = [DBPF_MAGIC, majorVersion hdr, minorVersion hdr, majorUserVersion hdr,
     minorUserVersion hdr, flags hdr, createdDate hdr, modifiedDate hdr, indexMajorVersion hdr]"

definition clstRecord :: "uint \<Rightarrow> Entry \<Rightarrow> bytes" where
  "clstRecord minor e = concat (map le32
     ([e_type e, e_group e, e_instance e] @ (if minor = 2 then [e_resource e] else [])
      @ [uncompressedSize e]))"

definition indexRecord :: "uint \<Rightarrow> Entry \<Rightarrow> bytes" where
  "indexRecord minor e = concat (map le32
     ([e_type e, e_group e, e_instance e] @ (if minor = 2 then [e_resource e] else [])
      @ [e_location e, e_size e]))"

definition clstBytes :: "uint \<Rightarrow> Entry list \<Rightarrow> bytes" where
  "clstBytes minor es = concat (map (clstRecord minor) (filter compressed es))"

definition clstEntry :: "nat \<Rightarrow> nat \<Rightarrow> Entry" where
  "clstEntry location sz = makeEntry CLST_TYPE CLST_TYPE 0x286B1F03 0 (of_nat location) (of_nat sz)"

definition withClst :: "uint \<Rightarrow> nat \<Rightarrow> Entry list \<Rightarrow> Entry list" where
  "withClst minor location es =
     (if clstBytes minor es = [] then es
      else es @ [clstEntry location (length (clstBytes minor es))])"

definition headerBytes :: "Header \<Rightarrow> bytes" where
  "headerBytes hdr = concat (map le32 (headerWords hdr)) @ replicate 24 0
     @ le32 (indexMinorVersion hdr) @ remainder hdr"

definition packageBytes :: "Header \<Rightarrow> Mode \<Rightarrow> bytes \<Rightarrow> Entry list \<Rightarrow> bytes" where
  "packageBytes hdr mode payloads es =
     (let minor = indexMinorVersion hdr;
          clst = clstBytes minor es;
          es' = withClst minor (96 + length payloads) es;
          index = concat (map (indexRecord minor) es');
          indexStart = 96 + length payloads + length clst;
          indexEnd = indexStart + length index
      in concat (map le32 (headerWords hdr
           @ [of_nat (length es'), of_nat indexStart, of_nat (length index)]
           @ (if mode = RECOMPRESS then [1, of_nat indexEnd, 8] else [0, 0, 0])
           @ [minor]))
         @ remainder hdr @ payloads @ clst @ index
         @ (if mode = RECOMPRESS
            then concat (map le32 [of_nat indexEnd + 8, 8, SIGNATURE, of_nat indexEnd + 8 + 8])
            else []))"

definition sameKeys :: "Entry \<Rightarrow> Entry \<Rightarrow> bool" where
  "sameKeys a b \<longleftrightarrow> e_type a = e_type b \<and> e_group a = e_group b \<and> e_instance a = e_instance b
     \<and> e_resource a = e_resource b \<and> repeated a = repeated b"

definition validHeader :: "Header \<Rightarrow> bool" where
  "validHeader hdr \<longleftrightarrow> majorVersion hdr = 1
     \<and> (minorVersion hdr = 0 \<or> minorVersion hdr = 1 \<or> minorVersion hdr = 2)
     \<and> indexMajorVersion hdr = 7 \<and> indexMinorVersion hdr \<le> 2"

definition holeData :: "fstream \<Rightarrow> Package \<Rightarrow> bytes" where
  "holeData file p =
     fst (readFile
            (snd (readFile (snd (readFile file 0 96)) (holeIndexLocation (header p))
                    (holeIndexSize (header p))))
            (h_location (holes p ! 0)) 8)"

definition strip :: "uint \<Rightarrow> Entry \<Rightarrow> Entry" where
  "strip minor e = makeEntry (e_type e) (e_group e) (e_instance e)
     (if minor = 2 then e_resource e else 0) (e_location e) (e_size e)"

text \<open>
  The hole table and the header that the reader finds in a file of the closed form
  \<open>packageBytes\<close>.
\<close>

definition writtenHoles :: "Mode \<Rightarrow> nat \<Rightarrow> Hole list" where
  "writtenHoles mode fileLength =
     (if mode = RECOMPRESS then [\<lparr>h_location = of_nat (fileLength - 8), h_size = 8\<rparr>] else [])"

definition writtenHeader :: "Header \<Rightarrow> Mode \<Rightarrow> bytes \<Rightarrow> Entry list \<Rightarrow> Header" where
  "writtenHeader hdr mode payloads es =
     (let minor = indexMinorVersion hdr;
          es' = withClst minor (96 + length payloads) es;
          indexStart = 96 + length payloads + length (clstBytes minor es);
          indexEnd = indexStart + length (concat (map (indexRecord minor) es'))
      in hdr\<lparr>indexEntryCount := of_nat (length es'), indexLocation := of_nat indexStart,
               indexSize := of_nat (length (concat (map (indexRecord minor) es'))),
               holeIndexEntryCount := (if mode = RECOMPRESS then 1 else 0),
               holeIndexLocation := (if mode = RECOMPRESS then of_nat indexEnd else 0),
               holeIndexSize := (if mode = RECOMPRESS then 8 else 0)\<rparr>)"

section \<open>The compressor of the spec\<close>




section \<open>Basic facts\<close>

lemma bindE_Inr [simp]: "bindE (Inr x) f = f x"
  by (simp add: bindE_def)

lemma bindE_Inl [simp]: "bindE (Inl e) f = Inl e"
  by (simp add: bindE_def)

lemma bindE_eq_Inr: "bindE m f = Inr y \<longleftrightarrow> (\<exists>x. m = Inr x \<and> f x = Inr y)"
  by (cases m) simp_all

lemma length_resize [simp]: "length (resize n buf) = n"
  by (simp add: resize_def)

lemma getUncompressedSize_Inr: "8 < length buf \<Longrightarrow> \<exists>n. getUncompressedSize buf = Inr n"
  by (simp add: getUncompressedSize_def)

lemma getUncompressedSize_Inl: "\<not> 8 < length buf \<Longrightarrow> getUncompressedSize buf = Inl OutOfBounds"
  by (simp add: getUncompressedSize_def)

lemma decompressEntry_only_flag:
  "decompressEntry qd entry content = Inr (e1, c1) \<Longrightarrow> e1\<lparr>compressed := b\<rparr> = entry\<lparr>compressed := b\<rparr>"
  by (auto simp: decompressEntry_def bindE_eq_Inr Let_def case_prod_beta split: if_splits)

lemma compressEntry_only_flag:
  "compressEntry qc entry content = Inr (e1, c1) \<Longrightarrow> e1\<lparr>compressed := b\<rparr> = entry\<lparr>compressed := b\<rparr>"
  by (auto simp: compressEntry_def Let_def case_prod_beta split: if_splits)

section \<open>Words and buffers\<close>

lemma length_le32 [simp]: "length (le32 v) = 4"
  by (simp add: le32_def)

lemma le32_word:
  "(ucast (ucast (v :: uint) :: byte) :: uint)
     OR push_bit 8 (ucast (ucast (drop_bit 8 v) :: byte))
     OR push_bit 16 (ucast (ucast (drop_bit 16 v) :: byte))
     OR push_bit 24 (ucast (ucast (drop_bit 24 v) :: byte)) = v"
proof (rule bit_word_eqI)
  fix n :: nat
  assume "n < LENGTH(32)"
  then have n: "n < 32" by simp
  consider "n < 8" | "8 \<le> n" "n < 16" | "16 \<le> n" "n < 24" | "24 \<le> n" "n < 32"
    using n by linarith
  then show "bit ((ucast (ucast v :: byte) :: uint)
     OR push_bit 8 (ucast (ucast (drop_bit 8 v) :: byte))
     OR push_bit 16 (ucast (ucast (drop_bit 16 v) :: byte))
     OR push_bit 24 (ucast (ucast (drop_bit 24 v) :: byte))) n = bit v n"
    by cases (auto simp: bit_simps)
qed

lemma getInt_le32_at:
  "getInt (pre @ le32 v @ post) (length pre) = Inr (v, length pre + 4)"
  by (simp add: getInt_def nth_append le32_def le32_word)

lemma putInt_closed:
  assumes "pos + 4 \<le> length buf"
  shows "putInt buf pos v = Inr (take pos buf @ le32 v @ drop (pos + 4) buf, pos + 4)"
proof -
  have "buf[pos := a, pos + 1 := b, pos + 2 := c, pos + 3 := d]
        = take pos buf @ [a, b, c, d] @ drop (pos + 4) buf" for a b c d
    using assms
    apply (auto simp: list_eq_iff_nth_eq nth_list_update nth_append min_def nth_Cons split: nat.splits)
    subgoal for i x by (rule arg_cong [where f = "(!) buf"]) arith
    done
  then show ?thesis using assms by (simp add: putInt_def le32_def)
qed

lemma putInts_closed:
  "pos + 4 * length ns \<le> length buf \<Longrightarrow>
   putInts buf pos ns
     = Inr (take pos buf @ concat (map le32 ns) @ drop (pos + 4 * length ns) buf, pos + 4 * length ns)"
proof (induction ns arbitrary: buf pos)
  case Nil
  then show ?case by simp
next
  case (Cons n ns)
  have 1: "pos + 4 \<le> length buf" using Cons.prems by simp
  let ?buf1 = "take pos buf @ le32 n @ drop (pos + 4) buf"
  have 2: "length ?buf1 = length buf" using 1 by simp
  have 3: "pos + 4 + 4 * length ns \<le> length ?buf1" using Cons.prems 2 by simp
  have 4: "take (pos + 4) ?buf1 = take pos buf @ le32 n" using 1 by simp
  have 5: "drop (pos + 4 + 4 * length ns) ?buf1 = drop (pos + 4 + 4 * length ns) buf"
    using 1 by (simp add: add.commute add.left_commute)
  show ?case
    by (simp add: putInt_closed [OF 1] Cons.IH [OF 3] 4 5 del: take_append drop_append)
       (simp add: add.assoc)
qed

lemma putInts_fill:
  "length buf = 4 * length ns \<Longrightarrow> putInts buf 0 ns = Inr (concat (map le32 ns), 4 * length ns)"
  using putInts_closed [of 0 ns buf] by simp

lemma getInts_concat:
  "getInts (pre @ concat (map le32 ws) @ post) (length pre) (length ws)
     = Inr (ws, length pre + 4 * length ws)"
proof (induction ws arbitrary: pre)
  case Nil
  then show ?case by simp
next
  case (Cons w ws)
  have "getInts ((pre @ le32 w) @ concat (map le32 ws) @ post) (length (pre @ le32 w)) (length ws)
        = Inr (ws, length (pre @ le32 w) + 4 * length ws)"
    by (rule Cons.IH)
  then show ?case
    using getInt_le32_at [of pre w "concat (map le32 ws) @ post"] by simp
qed

lemma le32_0: "le32 0 = [0, 0, 0, 0]"
  by (simp add: le32_def)

lemma writeHeader_closed:
  assumes "length (remainder hdr) = 32"
  shows "writeHeader hdr = Inr (headerBytes hdr)"
proof -
  have 1: "putInts (replicate 96 0) 0 (headerWords hdr)
    = Inr (concat (map le32 (headerWords hdr)) @ replicate 60 0, 36)"
    using putInts_closed [of 0 "headerWords hdr" "replicate 96 0"]
    by (simp add: headerWords_def)
  have 2: "length (concat (map le32 (headerWords hdr))) = 36"
    by (simp add: headerWords_def)
  have 3: "putInt (concat (map le32 (headerWords hdr)) @ replicate 60 0) 60 (indexMinorVersion hdr)
    = Inr (concat (map le32 (headerWords hdr)) @ replicate 24 0 @ le32 (indexMinorVersion hdr)
           @ replicate 32 0, 64)"
    using putInt_closed [of 60 "concat (map le32 (headerWords hdr)) @ replicate 60 0" "indexMinorVersion hdr"] 2
    by simp
  show ?thesis
    using assms 2
    by (simp add: writeHeader_def headerBytes_def 1 3 flip: headerWords_def)
qed

lemma recompressEntry_only_flag:
  assumes "recompressEntry qc qd entry content = Inr (e1, c1)"
  shows "e1\<lparr>compressed := b\<rparr> = entry\<lparr>compressed := b\<rparr>"
proof -
  from assms obtain ea ca eb cb where
    a: "decompressEntry qd entry content = Inr (ea, ca)" and
    b: "compressEntry qc ea ca = Inr (eb, cb)" and
    c: "e1 = eb \<or> e1 = eb\<lparr>compressed := compressed entry\<rparr>"
    by (auto simp: recompressEntry_def Let_def bindE_eq_Inr split: if_splits)
  from decompressEntry_only_flag [OF a, of b] compressEntry_only_flag [OF b, of b] c
  show ?thesis by auto
qed

lemma transformEntry_only_flag:
  assumes "transformEntry qc qd mode entry content = Inr (e1, c1)"
  shows "e1\<lparr>compressed := b\<rparr> = entry\<lparr>compressed := b\<rparr>"
  using assms recompressEntry_only_flag [of qc qd entry content e1 c1 b]
    decompressEntry_only_flag [of qd entry content e1 c1 b]
  by (cases mode) (auto simp: transformEntry_def)

lemma only_flag_sameKeys:
  assumes "e1\<lparr>compressed := True\<rparr> = entry\<lparr>compressed := True\<rparr>"
  shows "sameKeys (e1\<lparr>e_size := s, uncompressedSize := u, e_location := l\<rparr>) entry"
proof -
  have "e_type (e1\<lparr>compressed := True\<rparr>) = e_type (entry\<lparr>compressed := True\<rparr>)"
       "e_group (e1\<lparr>compressed := True\<rparr>) = e_group (entry\<lparr>compressed := True\<rparr>)"
       "e_instance (e1\<lparr>compressed := True\<rparr>) = e_instance (entry\<lparr>compressed := True\<rparr>)"
       "e_resource (e1\<lparr>compressed := True\<rparr>) = e_resource (entry\<lparr>compressed := True\<rparr>)"
       "repeated (e1\<lparr>compressed := True\<rparr>) = repeated (entry\<lparr>compressed := True\<rparr>)"
    using assms by simp_all
  then show ?thesis by (simp add: sameKeys_def)
qed

lemma writeEntries_props:
  assumes "writeEntries qc qd mode oldFile newFile es0 = Inr (es, newFile', oldFile')"
  shows "(\<exists>P. newFile' = newFile @ P) \<and> list_all2 sameKeys es es0
       \<and> (\<forall>e\<in>set es. \<exists>a b. e_location e = of_nat a \<and> e_size e = of_nat b
              \<and> length newFile \<le> a \<and> a + b \<le> length newFile')"
  using assms
proof (induction es0 arbitrary: oldFile newFile es newFile' oldFile')
  case Nil
  then show ?case by simp
next
  case (Cons entry rest)
  obtain content f1 where rd: "readFile oldFile (e_location entry) (e_size entry) = (content, f1)"
    by (cases "readFile oldFile (e_location entry) (e_size entry)")
  from Cons.prems rd obtain e1 c1 us rest' where
    tr: "transformEntry qc qd mode entry content = Inr (e1, c1)" and
    rec: "writeEntries qc qd mode f1 (newFile @ c1) rest = Inr (rest', newFile', oldFile')" and
    es: "es = e1\<lparr>e_size := of_nat (length c1), uncompressedSize := us,
                   e_location := of_nat (length newFile)\<rparr> # rest'"
    by (auto simp: bindE_eq_Inr Let_def)
  from Cons.IH [OF rec] obtain P where
    P: "newFile' = (newFile @ c1) @ P" and
    keys: "list_all2 sameKeys rest' rest" and
    locs: "\<forall>e\<in>set rest'. \<exists>a b. e_location e = of_nat a \<and> e_size e = of_nat b
              \<and> length (newFile @ c1) \<le> a \<and> a + b \<le> length newFile'"
    by blast
  have k1: "sameKeys (e1\<lparr>e_size := of_nat (length c1), uncompressedSize := us,
                   e_location := of_nat (length newFile)\<rparr>) entry"
    by (rule only_flag_sameKeys) (rule transformEntry_only_flag [OF tr])
  have l1: "\<exists>a b. e_location (e1\<lparr>e_size := of_nat (length c1), uncompressedSize := us,
                   e_location := of_nat (length newFile)\<rparr>) = of_nat a
            \<and> e_size (e1\<lparr>e_size := of_nat (length c1), uncompressedSize := us,
                   e_location := of_nat (length newFile)\<rparr>) = of_nat b
            \<and> length newFile \<le> a \<and> a + b \<le> length newFile'"
    by (rule exI [of _ "length newFile"], rule exI [of _ "length c1"]) (simp add: P)
  have l2: "\<forall>e\<in>set rest'. \<exists>a b. e_location e = of_nat a \<and> e_size e = of_nat b
              \<and> length newFile \<le> a \<and> a + b \<le> length newFile'"
    using locs by fastforce
  show ?case
    using P keys k1 l1 l2 by (simp add: es)
qed

lemma length_splice:
  "pos + length r \<le> length buf \<Longrightarrow>
   length (take pos buf @ r @ drop (pos + length r) buf) = length buf"
  by simp

lemma take_splice:
  "pos + length r \<le> length buf \<Longrightarrow>
   take (pos + length r) (take pos buf @ r @ drop (pos + length r) buf) = take pos buf @ r"
  by simp

lemma drop_splice:
  "pos + length r \<le> length buf \<Longrightarrow>
   drop (pos + length r + n) (take pos buf @ r @ drop (pos + length r) buf)
     = drop (pos + length r + n) buf"
  by (simp add: ac_simps)

lemma length_clstRecord: "length (clstRecord minor e) = (if minor = 2 then 20 else 16)"
  by (simp add: clstRecord_def)

lemma length_indexRecord: "length (indexRecord minor e) = (if minor = 2 then 24 else 20)"
  by (simp add: indexRecord_def)

lemma length_clstBytes:
  "length (clstBytes minor es) = (if minor = 2 then 20 else 16) * length (filter compressed es)"
  by (induction es) (auto simp: clstBytes_def length_clstRecord)

lemma length_index:
  "length (concat (map (indexRecord minor) es)) = (if minor = 2 then 24 else 20) * length es"
  by (induction es) (auto simp: length_indexRecord)

lemma putInts_record:
  assumes "concat (map le32 ws) = r" and "pos + length r \<le> length buf"
  shows "putInts buf pos ws = Inr (take pos buf @ r @ drop (pos + length r) buf, pos + length r)"
proof -
  have "length r = 4 * length ws"
    using assms(1) by (induction ws arbitrary: r) auto
  then show ?thesis
    using putInts_closed [of pos ws buf] assms by simp
qed

lemma putClst_closed:
  "pos + length (clstBytes minor es) \<le> length buf \<Longrightarrow>
   putClst minor buf pos es
     = Inr (take pos buf @ clstBytes minor es @ drop (pos + length (clstBytes minor es)) buf,
            pos + length (clstBytes minor es))"
proof (induction es arbitrary: buf pos)
  case Nil
  then show ?case by (simp add: clstBytes_def)
next
  case (Cons e es)
  show ?case
  proof (cases "compressed e")
    case False
    then have "clstBytes minor (e # es) = clstBytes minor es" by (simp add: clstBytes_def)
    then show ?thesis using Cons False by simp
  next
    case True
    let ?r = "clstRecord minor e"
    let ?buf1 = "take pos buf @ ?r @ drop (pos + length ?r) buf"
    have cb: "clstBytes minor (e # es) = ?r @ clstBytes minor es"
      using True by (simp add: clstBytes_def)
    have 1: "pos + length ?r \<le> length buf" using Cons.prems cb by simp
    have 2: "putInts buf pos ([e_type e, e_group e, e_instance e]
                  @ (if minor = 2 then [e_resource e] else []) @ [uncompressedSize e])
             = Inr (?buf1, pos + length ?r)"
      by (rule putInts_record [OF _ 1]) (simp add: clstRecord_def)
    have 3: "pos + length ?r + length (clstBytes minor es) \<le> length ?buf1"
      using Cons.prems cb 1 by (simp only: length_splice [OF 1]) simp
    have 4: "putClst minor ?buf1 (pos + length ?r) es
         = Inr (take (pos + length ?r) ?buf1 @ clstBytes minor es
                @ drop (pos + length ?r + length (clstBytes minor es)) ?buf1,
                pos + length ?r + length (clstBytes minor es))"
      by (rule Cons.IH [OF 3])
    show ?thesis
      using True
      by (simp only: putClst.simps if_True 2 bindE_Inr case_prod_conv 4 take_splice [OF 1]
             drop_splice [OF 1] cb)
         (simp add: add.assoc)
  qed
qed

lemma putIndex_closed:
  "pos + length (concat (map (indexRecord minor) es)) \<le> length buf \<Longrightarrow>
   putIndex minor buf pos es
     = Inr (take pos buf @ concat (map (indexRecord minor) es)
              @ drop (pos + length (concat (map (indexRecord minor) es))) buf,
            pos + length (concat (map (indexRecord minor) es)))"
proof (induction es arbitrary: buf pos)
  case Nil
  then show ?case by simp
next
  case (Cons e es)
  let ?r = "indexRecord minor e"
  let ?rest = "concat (map (indexRecord minor) es)"
  let ?buf1 = "take pos buf @ ?r @ drop (pos + length ?r) buf"
  have cb: "concat (map (indexRecord minor) (e # es)) = ?r @ ?rest" by simp
  have 1: "pos + length ?r \<le> length buf" using Cons.prems by simp
  have 2: "putInts buf pos ([e_type e, e_group e, e_instance e]
                @ (if minor = 2 then [e_resource e] else []) @ [e_location e, e_size e])
           = Inr (?buf1, pos + length ?r)"
    by (rule putInts_record [OF _ 1]) (simp add: indexRecord_def)
  have 3: "pos + length ?r + length ?rest \<le> length ?buf1"
    using Cons.prems 1 by (simp only: length_splice [OF 1]) simp
  have 4: "putIndex minor ?buf1 (pos + length ?r) es
       = Inr (take (pos + length ?r) ?buf1 @ ?rest
              @ drop (pos + length ?r + length ?rest) ?buf1,
              pos + length ?r + length ?rest)"
    by (rule Cons.IH [OF 3])
  show ?case
    by (simp only: putIndex.simps 2 bindE_Inr case_prod_conv 4 take_splice [OF 1]
           drop_splice [OF 1] cb)
       (simp add: add.assoc)
qed

lemma unat_of_nat32: "n < 2 ^ 32 \<Longrightarrow> unat (of_nat n :: uint) = n"
  by (simp add: unat_of_nat)

lemma of_nat32_pos: "n < 2 ^ 32 \<Longrightarrow> (of_nat n :: uint) > 0 \<longleftrightarrow> n > 0"
  by (simp add: word_less_nat_alt unat_of_nat32)

lemma resize_prefix: "resize (length xs) (xs @ ys) = xs"
  by (simp add: resize_def)

lemma makeEntry_sel [simp]:
  "e_type (makeEntry t g i r l s) = t" "e_group (makeEntry t g i r l s) = g"
  "e_instance (makeEntry t g i r l s) = i" "e_resource (makeEntry t g i r l s) = r"
  "e_location (makeEntry t g i r l s) = l" "e_size (makeEntry t g i r l s) = s"
  "uncompressedSize (makeEntry t g i r l s) = 0" "compressed (makeEntry t g i r l s) = False"
  "repeated (makeEntry t g i r l s) = False"
  by (simp_all add: makeEntry_def)

lemma makeEntry_size [simp]:
  "(makeEntry t g i r l s)\<lparr>e_size := s'\<rparr> = makeEntry t g i r l s'"
  by (simp add: makeEntry_def)

lemma writeClst_closed:
  assumes "length es * 20 < 2 ^ 32"
  shows "writeClst minor newFile es
     = Inr (newFile @ clstBytes minor es, withClst minor (length newFile) es)"
proof -
  let ?C = "clstBytes minor es"
  let ?n = "length es * 4 * (if minor = 2 then 5 else 4)"
  have lenC: "length ?C \<le> ?n"
  proof -
    have "length (filter compressed es) \<le> length es" by simp
    then show ?thesis by (simp add: length_clstBytes)
  qed
  have lenC32: "length ?C < 2 ^ 32"
  proof -
    have "?n \<le> length es * 20" by simp
    with lenC assms show ?thesis by linarith
  qed
  have clst: "putClst minor (replicate ?n 0) 0 es = Inr (?C @ replicate (?n - length ?C) 0, length ?C)"
    using putClst_closed [of 0 minor es "replicate ?n 0"] lenC by simp
  have pos0: "(0 < (of_nat (length ?C) :: uint)) \<longleftrightarrow> ?C \<noteq> []"
    using of_nat32_pos [OF lenC32] by simp
  have unatC: "unat (of_nat (length ?C) :: uint) = length ?C"
    by (rule unat_of_nat32 [OF lenC32])
  show ?thesis
    by (simp add: writeClst_def Let_def clst pos0 unatC resize_prefix withClst_def clstEntry_def)
qed

lemma writeIndex_closed:
  "writeIndex minor newFile es = Inr (newFile @ concat (map (indexRecord minor) es))"
proof -
  let ?I = "concat (map (indexRecord minor) es)"
  let ?n = "length es * 4 * (if minor = 2 then 6 else 5)"
  have lenI: "length ?I = ?n" by (simp add: length_index)
  have "putIndex minor (replicate ?n 0) 0 es = Inr (?I, length ?I)"
    using putIndex_closed [of 0 minor es "replicate ?n 0"] lenI by simp
  then show ?thesis by (simp add: writeIndex_def Let_def)
qed

lemma writeSignature_closed:
  "writeSignature mode newFile loc
     = Inr (newFile @ (if mode = RECOMPRESS
                       then concat (map le32 [loc + 8, 8, SIGNATURE, loc + 8 + 8]) else []))"
  using putInts_fill [of "replicate 16 0" "[loc + 8, 8, SIGNATURE, loc + 8 + 8]"]
  by (simp add: writeSignature_def Let_def del: putInts.simps)

lemma updateHeader_closed:
  "updateHeader mode newFile n indexStart indexEnd loc
     = Inr (take 36 newFile
            @ concat (map le32 ([of_nat n, indexStart, indexEnd - indexStart]
                                @ (if mode = RECOMPRESS then [1, loc, 8] else [0, 0, 0])))
            @ drop 60 newFile)"
proof (cases "mode = RECOMPRESS")
  case True
  then show ?thesis
    using putInts_fill [of "replicate 24 0" "[of_nat n, indexStart, indexEnd - indexStart, 1, loc, 8]"]
    by (simp add: updateHeader_def del: putInts.simps)
next
  case False
  then show ?thesis
    using putInts_closed [of 0 "[of_nat n, indexStart, indexEnd - indexStart]" "replicate 24 0"]
    by (simp add: updateHeader_def le32_0 numeral_eq_Suc del: putInts.simps)
qed

lemma length_headerBytes: "length (remainder hdr) = 32 \<Longrightarrow> length (headerBytes hdr) = 96"
  by (simp add: headerBytes_def headerWords_def)

lemma putPackage_closed:
  assumes rem: "length (remainder (header p)) = 32"
    and we: "writeEntries qc qd mode oldFile (headerBytes (header p)) (entries p)
               = Inr (es, headerBytes (header p) @ P, oldFile')"
    and bound: "length es * 20 < 2 ^ 32"
  shows "putPackage qc qd oldFile p mode
    = Inr (packageBytes (header p) mode P es,
           p\<lparr>entries := withClst (indexMinorVersion (header p)) (96 + length P) es\<rparr>, oldFile')"
proof -
  have take36: "take 36 (headerBytes (header p)) = concat (map le32 (headerWords (header p)))"
    by (simp add: headerBytes_def headerWords_def)
  have drop60: "drop 60 (headerBytes (header p))
      = le32 (indexMinorVersion (header p)) @ remainder (header p)"
    by (simp add: headerBytes_def headerWords_def)
  show ?thesis
    by (simp add: putPackage_def writeHeader_closed [OF rem] we writeClst_closed [OF bound]
          writeIndex_closed writeSignature_closed updateHeader_closed Let_def
          length_headerBytes [OF rem] take36 drop60 packageBytes_def add.assoc)
qed

lemma length_readFile [simp]: "length (fst (readFile file pos sz)) = unat sz"
  by (auto simp: readFile_def Let_def)

lemma rejected_simps [simp]: "\<not> unpacked rejected" "\<not> signature_in_package rejected"
  "entries rejected = []"
  by (simp_all add: rejected_def)

lemma finishPackage_Inr:
  assumes "finishPackage file hdr mode hs sg es clstContent = Inr (p, f')"
  shows "\<exists>ces. (if length clstContent > 0
               then readClst (indexMinorVersion hdr) clstContent 0 Map.empty
               else Inr Map.empty) = Inr ces
      \<and> p = \<lparr>unpacked = True, signature_in_package = sg, header = hdr,
             entries = (let es1 = (if length clstContent > 0 then map (markCompressed ces) es else es)
                        in if mode = RECOMPRESS then markRepeated (length es1) 0 Map.empty es1 else es1),
             holes = hs, compressedEntries = ces\<rparr>"
  using assms
  by (auto simp: finishPackage_def bindE_eq_Inr Let_def)

lemma getPackageIndex_unpacked:
  assumes "getPackageIndex file fileSize hdr mode hs sg = Inr (p, f')" and "unpacked p"
  shows "\<exists>es clstContent f5.
      readIndex (snd (readFile file (indexLocation hdr) (indexSize hdr))) fileSize
        (indexMinorVersion hdr) (fst (readFile file (indexLocation hdr) (indexSize hdr))) 0
        (unat (indexEntryCount hdr)) [] [] = Inr (Some (es, clstContent, f5))
    \<and> finishPackage f5 hdr mode hs sg es clstContent = Inr (p, f')"
  using assms
  by (auto simp: getPackageIndex_def bindE_eq_Inr case_prod_beta split: option.splits)

lemma getPackageBody_unpacked:
  assumes "getPackageBody file fileSize hdr mode = Inr (p, f')" and "unpacked p"
  shows "\<exists>hs sg f3.
      readHoles (fst (readFile file (holeIndexLocation hdr) (holeIndexSize hdr))) 0
        (unat (holeIndexEntryCount hdr)) = Inr hs
    \<and> checkSignature (snd (readFile file (holeIndexLocation hdr) (holeIndexSize hdr))) fileSize hdr hs
        = Inr (Some sg, f3)
    \<and> getPackageIndex f3 fileSize hdr mode hs sg = Inr (p, f')"
  using assms
  by (auto simp: getPackageBody_def bindE_eq_Inr case_prod_beta split: option.splits)

lemma checkHeader_unpacked:
  assumes "checkHeader file fileSize hdr mode = Inr (p, f')" and "unpacked p"
  shows "validHeader hdr \<and> holeIndexEntryCount hdr * 8 = holeIndexSize hdr
     \<and> getPackageBody file fileSize hdr mode = Inr (p, f')"
proof -
  have 1: "validHeader hdr"
    using assms unfolding validHeader_def checkHeader_def
    by (metis (no_types, lifting) Inr_inject Pair_inject rejected_simps(1) not_le)
  have 2: "holeIndexEntryCount hdr * 8 = holeIndexSize hdr"
    using assms unfolding checkHeader_def Let_def
    by (metis (no_types, lifting) Inr_inject Pair_inject rejected_simps(1))
  have 3: "getPackageBody file fileSize hdr mode = Inr (p, f')"
    using assms unfolding checkHeader_def Let_def
    by (metis (no_types, lifting) Inr_inject Pair_inject rejected_simps(1))
  from 1 2 3 show ?thesis by simp
qed

lemma getPackage_unpacked:
  assumes "getPackage file mode = Inr (p, f')" and "unpacked p"
  shows "\<exists>ws pos. getInts (fst (readFile file 0 96)) 4 15 = Inr (ws, pos)
     \<and> checkHeader (snd (readFile file 0 96)) (getFileSize file)
          (makeHeader ws (drop 64 (fst (readFile file 0 96)))) mode = Inr (p, f')"
  using assms
  by (auto simp: getPackage_def Let_def case_prod_beta bindE_eq_Inr getInt_def
           split: if_splits)

lemma markRepeated_map:
  assumes "\<And>e. g (e\<lparr>repeated := True\<rparr>) = g e"
  shows "map g (markRepeated k i m es) = map g es"
proof (induction k arbitrary: i m es)
  case 0
  then show ?case by simp
next
  case (Suc k)
  have upd: "map g (es[a := (es ! a)\<lparr>repeated := True\<rparr>]) = map g es" for a es
  proof (cases "a < length es")
    case True
    then show ?thesis
      by (simp add: map_update assms list_update_same_conv)
  next
    case False
    then show ?thesis by (simp add: list_update_beyond)
  qed
  have upd2: "map g (es[a := (es ! a)\<lparr>repeated := True\<rparr>,
                        b := (es[a := (es ! a)\<lparr>repeated := True\<rparr>] ! b)\<lparr>repeated := True\<rparr>]) = map g es"
    for a b
    using upd [where a = b and es = "es[a := (es ! a)\<lparr>repeated := True\<rparr>]"]
      upd [where a = a and es = es] by simp
  show ?case
    by (cases "m (key (es ! i))") (simp_all add: Suc.IH upd2)
qed

lemma markRepeated_length [simp]: "length (markRepeated k i m es) = length es"
  using markRepeated_map [of "\<lambda>e. ()" k i m es] by (metis length_map)

lemma markCompressed_sel [simp]:
  "e_type (markCompressed m e) = e_type e" "key (markCompressed m e) = key e"
  "e_location (markCompressed m e) = e_location e" "e_size (markCompressed m e) = e_size e"
  "repeated (markCompressed m e) = repeated e"
  by (simp_all add: markCompressed_def key_def split: option.splits)

lemma finishPackage_entries:
  assumes "finishPackage file hdr mode hs sg es clstContent = Inr (p, f')"
    and "\<And>e. g (e\<lparr>repeated := True\<rparr>) = g e"
    and "\<And>e m. g (markCompressed m e) = g e"
  shows "map g (entries p) = map g es"
proof -
  from finishPackage_Inr [OF assms(1)] obtain ces where
    p: "p = \<lparr>unpacked = True, signature_in_package = sg, header = hdr,
             entries = (let es1 = (if length clstContent > 0 then map (markCompressed ces) es else es)
                        in if mode = RECOMPRESS then markRepeated (length es1) 0 Map.empty es1 else es1),
             holes = hs, compressedEntries = ces\<rparr>"
    by blast
  show ?thesis
    by (simp add: p Let_def markRepeated_map [of g, OF assms(2)] assms(3) comp_def)
qed

lemma finishPackage_fields:
  assumes "finishPackage file hdr mode hs sg es clstContent = Inr (p, f')"
  shows "unpacked p" "signature_in_package p = sg" "header p = hdr" "holes p = hs" "f' = file"
  using assms by (auto simp: finishPackage_def bindE_eq_Inr Let_def)

text \<open>What the loop over the index returns.\<close>

lemma readIndex_props:
  assumes "readIndex fl fileSize minor buffer pos k es clst = Inr (Some (es', clst', f'))"
  shows "(\<forall>e\<in>set es'. e \<in> set es \<or> (e_type e \<noteq> CLST_TYPE \<and> \<not> compressed e))
       \<and> length es' \<le> length es + k
       \<and> (0 < k \<longrightarrow> pos + (if minor = 2 then 24 else 20) * k \<le> length buffer)"
  using assms
proof (induction k arbitrary: fl pos es clst)
  case 0
  then show ?case by simp
next
  case (Suc k)
  from Suc.prems obtain ty p1 grp p2 inst p3 resource p4 location p5 sz p6 where
    g1: "getInt buffer pos = Inr (ty, p1)" and
    g2: "getInt buffer p1 = Inr (grp, p2)" and
    g3: "getInt buffer p2 = Inr (inst, p3)" and
    g4: "(if minor = 2 then getInt buffer p3 else Inr (0, p3)) = Inr (resource, p4)" and
    g5: "getInt buffer p4 = Inr (location, p5)" and
    g6: "getInt buffer p5 = Inr (sz, p6)" and
    rest: "(if location > fileSize \<or> location + sz > fileSize then Inr None
       else if ty = CLST_TYPE then
         let (content, fl) = readFile fl location sz
         in readIndex fl fileSize minor buffer p6 k es content
       else
         readIndex fl fileSize minor buffer p6 k
           (es @ [makeEntry ty grp inst resource location sz]) clst) = Inr (Some (es', clst', f'))"
    by (auto simp: bindE_eq_Inr)
  have p6: "p6 = pos + (if minor = 2 then 24 else 20)" and inb: "p6 \<le> length buffer"
    using g1 g2 g3 g4 g5 g6 by (auto simp: getInt_def split: if_splits)
  show ?case
  proof (cases "ty = CLST_TYPE")
    case True
    with rest obtain content f1 where
      r: "readIndex f1 fileSize minor buffer p6 k es content = Inr (Some (es', clst', f'))"
      by (auto simp: case_prod_beta split: if_splits)
    from Suc.IH [OF r] p6 inb show ?thesis by (cases k) auto
  next
    case False
    with rest have
      r: "readIndex fl fileSize minor buffer p6 k
           (es @ [makeEntry ty grp inst resource location sz]) clst = Inr (Some (es', clst', f'))"
      by (auto split: if_splits)
    from Suc.IH [OF r] p6 inb False show ?thesis by (cases k) (auto simp: makeEntry_def)
  qed
qed

lemma readHoles_length: "readHoles buffer pos k = Inr hs \<Longrightarrow> length hs = k"
  by (induction k arbitrary: pos hs) (auto simp: bindE_eq_Inr)

lemma makeHeader_remainder [simp]: "remainder (makeHeader ws rest) = rest"
  by (simp add: makeHeader_def)

text \<open>What every package that the reader returns with \<open>unpacked = True\<close> satisfies.\<close>

lemma getPackage_stages:
  assumes "getPackage f mode = Inr (p, f')" and "unpacked p"
  shows "\<exists>f3 es clstContent f5.
      validHeader (header p) \<and> length (remainder (header p)) = 32
    \<and> holeIndexEntryCount (header p) * 8 = holeIndexSize (header p)
    \<and> readHoles (fst (readFile (snd (readFile f 0 96)) (holeIndexLocation (header p))
                        (holeIndexSize (header p)))) 0
         (unat (holeIndexEntryCount (header p))) = Inr (holes p)
    \<and> checkSignature (snd (readFile (snd (readFile f 0 96)) (holeIndexLocation (header p))
                        (holeIndexSize (header p)))) (getFileSize f) (header p) (holes p)
         = Inr (Some (signature_in_package p), f3)
    \<and> readIndex (snd (readFile f3 (indexLocation (header p)) (indexSize (header p))))
         (getFileSize f) (indexMinorVersion (header p))
         (fst (readFile f3 (indexLocation (header p)) (indexSize (header p)))) 0
         (unat (indexEntryCount (header p))) [] [] = Inr (Some (es, clstContent, f5))
    \<and> finishPackage f5 (header p) mode (holes p) (signature_in_package p) es clstContent
         = Inr (p, f')"
proof -
  from getPackage_unpacked [OF assms] obtain ws pos where
    ws: "getInts (fst (readFile f 0 96)) 4 15 = Inr (ws, pos)" and
    ch: "checkHeader (snd (readFile f 0 96)) (getFileSize f)
          (makeHeader ws (drop 64 (fst (readFile f 0 96)))) mode = Inr (p, f')"
    by blast
  let ?hdr = "makeHeader ws (drop 64 (fst (readFile f 0 96)))"
  from checkHeader_unpacked [OF ch assms(2)] have
    v: "validHeader ?hdr" and h8: "holeIndexEntryCount ?hdr * 8 = holeIndexSize ?hdr" and
    body: "getPackageBody (snd (readFile f 0 96)) (getFileSize f) ?hdr mode = Inr (p, f')"
    by simp_all
  from getPackageBody_unpacked [OF body assms(2)] obtain hs sg f3 where
    hs: "readHoles (fst (readFile (snd (readFile f 0 96)) (holeIndexLocation ?hdr)
            (holeIndexSize ?hdr))) 0 (unat (holeIndexEntryCount ?hdr)) = Inr hs" and
    sg: "checkSignature (snd (readFile (snd (readFile f 0 96)) (holeIndexLocation ?hdr)
            (holeIndexSize ?hdr))) (getFileSize f) ?hdr hs = Inr (Some sg, f3)" and
    idx: "getPackageIndex f3 (getFileSize f) ?hdr mode hs sg = Inr (p, f')"
    by blast
  from getPackageIndex_unpacked [OF idx assms(2)] obtain es clstContent f5 where
    ri: "readIndex (snd (readFile f3 (indexLocation ?hdr) (indexSize ?hdr))) (getFileSize f)
        (indexMinorVersion ?hdr) (fst (readFile f3 (indexLocation ?hdr) (indexSize ?hdr))) 0
        (unat (indexEntryCount ?hdr)) [] [] = Inr (Some (es, clstContent, f5))" and
    fin: "finishPackage f5 ?hdr mode hs sg es clstContent = Inr (p, f')"
    by blast
  from finishPackage_fields [OF fin] have
    eqs: "header p = ?hdr" "holes p = hs" "signature_in_package p = sg"
    by simp_all
  have rem: "length (remainder ?hdr) = 32" by simp
  show ?thesis
    unfolding eqs using v rem h8 hs sg ri fin by blast
qed

lemma getPackage_writable:
  assumes "getPackage f mode = Inr (p, f')" and "unpacked p"
  shows "validHeader (header p)" and "length (remainder (header p)) = 32"
    and "\<forall>e\<in>set (entries p). e_type e \<noteq> CLST_TYPE"
    and "length (entries p) * (if indexMinorVersion (header p) = 2 then 24 else 20) < 2 ^ 32"
proof -
  from getPackage_stages [OF assms] obtain f3 es clstContent f5 where
    v: "validHeader (header p)" and rem: "length (remainder (header p)) = 32" and
    ri: "readIndex (snd (readFile f3 (indexLocation (header p)) (indexSize (header p))))
         (getFileSize f) (indexMinorVersion (header p))
         (fst (readFile f3 (indexLocation (header p)) (indexSize (header p)))) 0
         (unat (indexEntryCount (header p))) [] [] = Inr (Some (es, clstContent, f5))" and
    fin: "finishPackage f5 (header p) mode (holes p) (signature_in_package p) es clstContent
         = Inr (p, f')"
    by blast
  show "validHeader (header p)" by (rule v)
  show "length (remainder (header p)) = 32" by (rule rem)
  let ?k = "unat (indexEntryCount (header p))"
  let ?stride = "if indexMinorVersion (header p) = 2 then 24 else 20 :: nat"
  from readIndex_props [OF ri] have
    ty: "\<forall>e\<in>set es. e_type e \<noteq> CLST_TYPE" and len: "length es \<le> ?k" and
    inb: "0 < ?k \<longrightarrow> ?stride * ?k \<le> unat (indexSize (header p))"
    by auto
  have m1: "map e_type (entries p) = map e_type es"
    by (rule finishPackage_entries [OF fin]) simp_all
  then have "e_type ` set (entries p) = e_type ` set es" by (metis set_map)
  with ty show "\<forall>e\<in>set (entries p). e_type e \<noteq> CLST_TYPE"
    by (metis imageE imageI)
  have l: "length (entries p) = length es"
    using m1 by (metis length_map)
  have u: "unat (indexSize (header p)) < 2 ^ 32"
    using unsigned_less [of "indexSize (header p)"] by simp
  define s :: nat where "s = (if indexMinorVersion (header p) = 2 then 24 else 20)"
  have "length (entries p) * s < 2 ^ 32"
  proof (cases "0 < ?k")
    case True
    with inb have a: "s * ?k \<le> unat (indexSize (header p))" by (simp add: s_def)
    have b: "length es * s \<le> s * ?k" using len by (simp add: mult.commute)
    from a b u have "length es * s < 2 ^ 32" by linarith
    then show ?thesis by (simp only: l)
  next
    case False
    with len l show ?thesis by simp
  qed
  then show "length (entries p) * ?stride < 2 ^ 32" by (simp only: s_def)
qed

lemma getInt_8: "length hb = 8 \<Longrightarrow> \<exists>v. getInt hb 0 = Inr (v, 4)"
  "length hb = 8 \<Longrightarrow> \<exists>v. getInt hb 4 = Inr (v, 8)"
  by (simp_all add: getInt_def)

lemma checkSignature_Some:
  assumes "checkSignature f fs hdr hs = Inr (Some sg, f3)"
  shows "sg \<longleftrightarrow> holeIndexEntryCount hdr = 1 \<and> h_size (hs ! 0) = 8
       \<and> getInt (fst (readFile f (h_location (hs ! 0)) 8)) 0 = Inr (SIGNATURE, 4)
       \<and> getInt (fst (readFile f (h_location (hs ! 0)) 8)) 4 = Inr (fs, 8)"
proof -
  let ?hb = "fst (readFile f (h_location (hs ! 0)) 8)"
  have len: "length ?hb = 8" by simp
  from getInt_8 [OF len] obtain v0 v1 where
    v0: "getInt ?hb 0 = Inr (v0, 4)" and v1: "getInt ?hb 4 = Inr (v1, 8)" by blast
  show ?thesis
    using assms
    by (auto simp: checkSignature_def Let_def case_prod_beta v0 v1 split: if_splits)
qed

lemma returns_packageOf:
  "returns (getPackage (openFile bs) mode)
    \<Longrightarrow> getPackage (openFile bs) mode = Inr (packageOf bs mode, streamOf bs mode)"
  by (auto simp: returns_def packageOf_def streamOf_def split: sum.splits)

lemma writeAndValidate_Replaced:
  "writeAndValidate qc qd mode old p f = Inr (Replaced out) \<longleftrightarrow>
     (\<exists>p' f1 p2 f2. putPackage qc qd f p mode = Inr (out, p', f1)
        \<and> getPackage (openFile out) mode = Inr (p2, f2)
        \<and> validatePackage qd old p2 f1 f2 mode = Inr True)"
  by (auto simp: writeAndValidate_def bindE_eq_Inr split: if_splits)

lemma writeAndValidate_Invalid:
  "writeAndValidate qc qd mode old p f = Inr Invalid \<longleftrightarrow>
     (\<exists>out p' f1 p2 f2. putPackage qc qd f p mode = Inr (out, p', f1)
        \<and> getPackage (openFile out) mode = Inr (p2, f2)
        \<and> validatePackage qd old p2 f1 f2 mode = Inr False)"
  by (auto simp: writeAndValidate_def bindE_eq_Inr split: if_splits)

lemma writeAndValidate_not_skipped:
  "writeAndValidate qc qd mode old p f \<noteq> Inr Skipped"
  "writeAndValidate qc qd mode old p f \<noteq> Inr Unreadable"
  by (auto simp: writeAndValidate_def bindE_eq_Inr split: if_splits)

text \<open>
  C7, as amended. Let \<open>p\<close> be a package that the reader returns with \<open>unpacked = True\<close>
  for a freshly opened file \<open>bs\<close>. Its \<open>signature_in_package\<close> is true exactly when the
  hole table has one hole, that hole has size 8, and the eight bytes read at the
  hole's location hold the word \<open>SIGNATURE\<close> (the bytes "BRG5") and then, as a
  little-endian word, the size of the file. And when in RECOMPRESS mode the word
  after the signature is not the size of the file, the loop body of \<^verbatim>\<open>main\<close> does
  not skip the file and does not take it for unreadable: it runs the writer, the
  reader on the file that was written and the validator, all in RECOMPRESS mode; the
  old file is replaced, by the file that \<^verbatim>\<open>putPackage\<close> wrote, exactly when these
  three return and the validator answers true, and the file that was written is
  thrown away exactly when the validator answers false.
\<close>

theorem signature_in_package_iff:
  assumes "getPackage (openFile bs) mode = Inr (p, f')" and "unpacked p"
  shows "(signature_in_package p \<longleftrightarrow>
            length (holes p) = 1 \<and> h_size (holes p ! 0) = 8
            \<and> getInt (holeData (openFile bs) p) 0 = Inr (SIGNATURE, 4)
            \<and> getInt (holeData (openFile bs) p) 4 = Inr (of_nat (length bs), 8))
       \<and> (mode = RECOMPRESS
            \<and> getInt (holeData (openFile bs) p) 4 \<noteq> Inr (of_nat (length bs), 8) \<longrightarrow>
          processFile qc qd RECOMPRESS bs \<noteq> Inr Skipped
          \<and> processFile qc qd RECOMPRESS bs \<noteq> Inr Unreadable
          \<and> processFile qc qd RECOMPRESS bs = writeAndValidate qc qd RECOMPRESS p p f'
          \<and> (\<forall>out. processFile qc qd RECOMPRESS bs = Inr (Replaced out) \<longleftrightarrow>
                (\<exists>p' f1 p2 f2. putPackage qc qd f' p RECOMPRESS = Inr (out, p', f1)
                   \<and> getPackage (openFile out) RECOMPRESS = Inr (p2, f2)
                   \<and> validatePackage qd p p2 f1 f2 RECOMPRESS = Inr True))
          \<and> (processFile qc qd RECOMPRESS bs = Inr Invalid \<longleftrightarrow>
                (\<exists>out p' f1 p2 f2. putPackage qc qd f' p RECOMPRESS = Inr (out, p', f1)
                   \<and> getPackage (openFile out) RECOMPRESS = Inr (p2, f2)
                   \<and> validatePackage qd p p2 f1 f2 RECOMPRESS = Inr False)))"
proof -
  let ?f = "openFile bs"
  from getPackage_stages [OF assms] obtain f3 where
    h8: "holeIndexEntryCount (header p) * 8 = holeIndexSize (header p)" and
    hs: "readHoles (fst (readFile (snd (readFile ?f 0 96)) (holeIndexLocation (header p))
                        (holeIndexSize (header p)))) 0
         (unat (holeIndexEntryCount (header p))) = Inr (holes p)" and
    sg: "checkSignature (snd (readFile (snd (readFile ?f 0 96)) (holeIndexLocation (header p))
                        (holeIndexSize (header p)))) (getFileSize ?f) (header p) (holes p)
         = Inr (Some (signature_in_package p), f3)"
    by blast
  have fs: "getFileSize ?f = of_nat (length bs)"
    by (simp add: getFileSize_def openFile_def)
  have len: "length (holes p) = unat (holeIndexEntryCount (header p))"
    by (rule readHoles_length [OF hs])
  have one: "holeIndexEntryCount (header p) = 1 \<longleftrightarrow> length (holes p) = 1"
    unfolding len by (metis unat_1 unsigned_word_eqI)
  have iff: "signature_in_package p \<longleftrightarrow>
            length (holes p) = 1 \<and> h_size (holes p ! 0) = 8
            \<and> getInt (holeData ?f p) 0 = Inr (SIGNATURE, 4)
            \<and> getInt (holeData ?f p) 4 = Inr (of_nat (length bs), 8)"
    using checkSignature_Some [OF sg] unfolding holeData_def fs one .
  have run: "processFile qc qd RECOMPRESS bs = writeAndValidate qc qd RECOMPRESS p p f'"
    if "mode = RECOMPRESS" and "\<not> signature_in_package p"
    using that assms by (simp add: processFile_def Let_def)
  have "processFile qc qd RECOMPRESS bs \<noteq> Inr Skipped
          \<and> processFile qc qd RECOMPRESS bs \<noteq> Inr Unreadable
          \<and> processFile qc qd RECOMPRESS bs = writeAndValidate qc qd RECOMPRESS p p f'
          \<and> (\<forall>out. processFile qc qd RECOMPRESS bs = Inr (Replaced out) \<longleftrightarrow>
                (\<exists>p' f1 p2 f2. putPackage qc qd f' p RECOMPRESS = Inr (out, p', f1)
                   \<and> getPackage (openFile out) RECOMPRESS = Inr (p2, f2)
                   \<and> validatePackage qd p p2 f1 f2 RECOMPRESS = Inr True))
          \<and> (processFile qc qd RECOMPRESS bs = Inr Invalid \<longleftrightarrow>
                (\<exists>out p' f1 p2 f2. putPackage qc qd f' p RECOMPRESS = Inr (out, p', f1)
                   \<and> getPackage (openFile out) RECOMPRESS = Inr (p2, f2)
                   \<and> validatePackage qd p p2 f1 f2 RECOMPRESS = Inr False))"
    if "mode = RECOMPRESS" and "\<not> signature_in_package p"
    unfolding run [OF that]
    using writeAndValidate_not_skipped [of qc qd RECOMPRESS p p f']
      writeAndValidate_Replaced [of qc qd RECOMPRESS p p f']
      writeAndValidate_Invalid [of qc qd RECOMPRESS p p f']
    by simp
  with iff show ?thesis by blast
qed

lemma readFile_ok:
  assumes "\<not> failbit f" and "unat pos + unat sz \<le> length (contents f)"
  shows "readFile f pos sz = (take (unat sz) (drop (unat pos) (contents f)), f)"
  using assms by (simp add: readFile_def Let_def)

lemma readFile_openFile:
  assumes "unat pos + unat sz \<le> length bs"
  shows "readFile (openFile bs) pos sz = (take (unat sz) (drop (unat pos) bs), openFile bs)"
  using readFile_ok [of "openFile bs" pos sz] assms by (simp add: openFile_def)

lemma word_le_of_nat32:
  "a \<le> b \<Longrightarrow> b < 2 ^ 32 \<Longrightarrow> \<not> (of_nat b :: uint) < of_nat a"
  by (simp add: word_less_nat_alt unat_of_nat32)

lemma getInts_record:
  assumes "concat (map le32 ws) = r" and "length ws = n"
  shows "getInts (pre @ r @ post) (length pre) n = Inr (ws, length pre + length r)"
proof -
  have "length r = 4 * length ws"
    using assms(1) by (induction ws arbitrary: r) auto
  then show ?thesis
    using getInts_concat [of pre ws post] assms by simp
qed

lemma readIndex_step:
  "readIndex fl fs minor buffer pos (Suc k) es clst =
     bindE (getInts buffer pos (if minor = 2 then 6 else 5)) (\<lambda>(ws, pos).
       let location = ws ! (if minor = 2 then 4 else 3); sz = ws ! (if minor = 2 then 5 else 4) in
       if location > fs \<or> location + sz > fs then Inr None
       else if ws ! 0 = CLST_TYPE then
         readIndex (snd (readFile fl location sz)) fs minor buffer pos k es
           (fst (readFile fl location sz))
       else readIndex fl fs minor buffer pos k
              (es @ [makeEntry (ws ! 0) (ws ! 1) (ws ! 2) (if minor = 2 then ws ! 3 else 0)
                       location sz]) clst)"
  by (cases "minor = 2")
     (auto simp: bindE_def eval_nat_numeral case_prod_beta Let_def split: sum.splits)

lemma indexRecord_words:
  "indexRecord minor e = concat (map le32
     (if minor = 2 then [e_type e, e_group e, e_instance e, e_resource e, e_location e, e_size e]
      else [e_type e, e_group e, e_instance e, e_location e, e_size e]))"
  by (simp add: indexRecord_def)

lemma readIndex_record:
  assumes "\<not> (e_location e > fs \<or> e_location e + e_size e > fs)"
  shows "readIndex fl fs minor (pre @ indexRecord minor e @ post) (length pre) (Suc k) acc clst
     = (if e_type e = CLST_TYPE then
          readIndex (snd (readFile fl (e_location e) (e_size e))) fs minor
            (pre @ indexRecord minor e @ post) (length pre + length (indexRecord minor e)) k acc
            (fst (readFile fl (e_location e) (e_size e)))
        else
          readIndex fl fs minor (pre @ indexRecord minor e @ post)
            (length pre + length (indexRecord minor e)) k (acc @ [strip minor e]) clst)"
proof (cases "minor = 2")
  case True
  have g: "getInts (pre @ indexRecord minor e @ post) (length pre) 6
      = Inr ([e_type e, e_group e, e_instance e, e_resource e, e_location e, e_size e],
             length pre + length (indexRecord minor e))"
    by (rule getInts_record) (simp_all add: indexRecord_words True)
  show ?thesis
    using assms unfolding True
    by (simp only: readIndex_step if_True g [unfolded True] bindE_Inr case_prod_conv Let_def
          refl simp_thms)
       (simp add: strip_def)
next
  case False
  have g: "getInts (pre @ indexRecord minor e @ post) (length pre) 5
      = Inr ([e_type e, e_group e, e_instance e, e_location e, e_size e],
             length pre + length (indexRecord minor e))"
    by (rule getInts_record) (simp_all add: indexRecord_words False)
  show ?thesis
    using assms False
    by (simp only: readIndex_step if_False g bindE_Inr case_prod_conv Let_def simp_thms)
       (simp add: strip_def)
qed

lemma readIndex_records:
  assumes "\<forall>e\<in>set xs. e_type e \<noteq> CLST_TYPE"
    and "\<forall>e\<in>set xs. \<not> (e_location e > fs \<or> e_location e + e_size e > fs)"
  shows "readIndex fl fs minor (pre @ concat (map (indexRecord minor) xs) @ post) (length pre)
           (length xs + k) acc clst
       = readIndex fl fs minor (pre @ concat (map (indexRecord minor) xs) @ post)
           (length pre + length (concat (map (indexRecord minor) xs))) k
           (acc @ map (strip minor) xs) clst"
  using assms
proof (induction xs arbitrary: pre acc)
  case Nil
  then show ?case by simp
next
  case (Cons e xs)
  let ?rest = "concat (map (indexRecord minor) xs)"
  have 1: "readIndex fl fs minor (pre @ indexRecord minor e @ (?rest @ post)) (length pre)
             (Suc (length xs + k)) acc clst
        = readIndex fl fs minor (pre @ indexRecord minor e @ (?rest @ post))
            (length pre + length (indexRecord minor e)) (length xs + k) (acc @ [strip minor e]) clst"
    using Cons.prems by (subst readIndex_record) simp_all
  have 2: "readIndex fl fs minor ((pre @ indexRecord minor e) @ ?rest @ post)
             (length (pre @ indexRecord minor e)) (length xs + k) (acc @ [strip minor e]) clst
        = readIndex fl fs minor ((pre @ indexRecord minor e) @ ?rest @ post)
            (length (pre @ indexRecord minor e) + length ?rest) k
            ((acc @ [strip minor e]) @ map (strip minor) xs) clst"
    using Cons.prems by (intro Cons.IH) simp_all
  show ?case
    using 1 2 by (simp add: add.assoc)
qed

lemma readClst_step:
  "readClst minor clst pos m =
     (if pos < length clst then
        bindE (getInts clst pos (if minor = 2 then 5 else 4)) (\<lambda>(ws, pos).
          readClst minor clst pos
            (insertCompressedEntry m (ws ! 0, ws ! 1, ws ! 2, if minor = 2 then ws ! 3 else 0)
               (ws ! (if minor = 2 then 4 else 3))))
      else Inr m)"
  by (subst readClst.simps, cases "minor = 2")
     (auto simp: bindE_def eval_nat_numeral case_prod_beta split: sum.splits)

lemma clstRecord_words:
  "clstRecord minor e = concat (map le32
     (if minor = 2 then [e_type e, e_group e, e_instance e, e_resource e, uncompressedSize e]
      else [e_type e, e_group e, e_instance e, uncompressedSize e]))"
  by (simp add: clstRecord_def)

lemma readClst_records:
  "\<exists>m'. readClst minor (pre @ concat (map (clstRecord minor) cs)) (length pre) m = Inr m'"
proof (induction cs arbitrary: pre m)
  case Nil
  then show ?case by (subst readClst.simps) simp
next
  case (Cons e cs)
  let ?rest = "concat (map (clstRecord minor) cs)"
  let ?buf = "pre @ clstRecord minor e @ ?rest"
  have lt: "length pre < length ?buf" by (simp add: length_clstRecord)
  have g: "getInts (pre @ clstRecord minor e @ ?rest) (length pre) (if minor = 2 then 5 else 4)
      = Inr (if minor = 2 then [e_type e, e_group e, e_instance e, e_resource e, uncompressedSize e]
             else [e_type e, e_group e, e_instance e, uncompressedSize e],
             length pre + length (clstRecord minor e))"
    by (rule getInts_record) (simp_all add: clstRecord_words)
  have "\<exists>m1. readClst minor ?buf (length pre) m
      = readClst minor ((pre @ clstRecord minor e) @ ?rest) (length (pre @ clstRecord minor e)) m1"
    by (subst readClst_step, simp only: lt if_True g bindE_Inr case_prod_conv, simp, blast)
  then obtain m1 where m1: "readClst minor ?buf (length pre) m
      = readClst minor ((pre @ clstRecord minor e) @ ?rest) (length (pre @ clstRecord minor e)) m1"
    by blast
  from Cons.IH [of "pre @ clstRecord minor e" m1] m1 show ?case by simp
qed

theorem signature_stale_witness:
  "unpacked (packageOf staleFile RECOMPRESS)
   \<and> length (holes (packageOf staleFile RECOMPRESS)) = 1
   \<and> getInt (holeData (openFile staleFile) (packageOf staleFile RECOMPRESS)) 0 = Inr (SIGNATURE, 4)
   \<and> getInt (holeData (openFile staleFile) (packageOf staleFile RECOMPRESS)) 4
       = Inr (of_nat (length staleFile) + 1, 8)
   \<and> \<not> signature_in_package (packageOf staleFile RECOMPRESS)
   \<and> processFile noCompression qfs_decompress RECOMPRESS staleFile \<noteq> Inr Skipped
   \<and> writtenBytes noCompression qfs_decompress staleFile RECOMPRESS = staleOut
   \<and> processFile noCompression qfs_decompress RECOMPRESS staleFile = Inr (Replaced staleOut)"
proof -
  have r: "returns (getPackage (openFile staleFile) RECOMPRESS)" by code_simp
  have u: "unpacked (packageOf staleFile RECOMPRESS)" by code_simp
  have l: "length (holes (packageOf staleFile RECOMPRESS)) = 1" by code_simp
  have g0: "getInt (holeData (openFile staleFile) (packageOf staleFile RECOMPRESS)) 0 = Inr (SIGNATURE, 4)"
    by code_simp
  have g4: "getInt (holeData (openFile staleFile) (packageOf staleFile RECOMPRESS)) 4
      = Inr (of_nat (length staleFile) + 1, 8)"
    by code_simp
  have ne: "(of_nat (length staleFile) + 1 :: uint) \<noteq> of_nat (length staleFile)" by simp
  have wb: "writtenBytes noCompression qfs_decompress staleFile RECOMPRESS = staleOut"
    by code_simp
  have pf: "processFile noCompression qfs_decompress RECOMPRESS staleFile = Inr (Replaced staleOut)"
    by code_simp
  have ne': "getInt (holeData (openFile staleFile) (packageOf staleFile RECOMPRESS)) 4
      \<noteq> Inr (of_nat (length staleFile), 8)"
    unfolding g4 using ne by simp
  from signature_in_package_iff [OF returns_packageOf [OF r] u, of noCompression qfs_decompress]
    ne'
  have "\<not> signature_in_package (packageOf staleFile RECOMPRESS)"
    "processFile noCompression qfs_decompress RECOMPRESS staleFile \<noteq> Inr Skipped"
    by blast+
  with u l g0 g4 wb pf show ?thesis by blast
qed

text \<open>
  A stale signature does not mean that the file ends up recompressed: on
  \<open>staleHeaderFile\<close> the pass runs, the validator rejects the file that was written
  (its entry is not in the directory of compressed files, but its payload starts
  like a compression header), and the old file stays.
\<close>

theorem stale_signature_not_replaced:
  "unpacked (packageOf staleHeaderFile RECOMPRESS)
   \<and> length (holes (packageOf staleHeaderFile RECOMPRESS)) = 1
   \<and> h_size (holes (packageOf staleHeaderFile RECOMPRESS) ! 0) = 8
   \<and> getInt (holeData (openFile staleHeaderFile) (packageOf staleHeaderFile RECOMPRESS)) 0
       = Inr (SIGNATURE, 4)
   \<and> getInt (holeData (openFile staleHeaderFile) (packageOf staleHeaderFile RECOMPRESS)) 4
       = Inr (of_nat (length staleHeaderFile) + 1, 8)
   \<and> \<not> signature_in_package (packageOf staleHeaderFile RECOMPRESS)
   \<and> processFile noCompression qfs_decompress RECOMPRESS staleHeaderFile = Inr Invalid"
proof -
  have 1: "unpacked (packageOf staleHeaderFile RECOMPRESS)
   \<and> length (holes (packageOf staleHeaderFile RECOMPRESS)) = 1
   \<and> h_size (holes (packageOf staleHeaderFile RECOMPRESS) ! 0) = 8
   \<and> \<not> signature_in_package (packageOf staleHeaderFile RECOMPRESS)" by code_simp
  have 2: "getInt (holeData (openFile staleHeaderFile) (packageOf staleHeaderFile RECOMPRESS)) 0
       = Inr (SIGNATURE, 4)" by code_simp
  have 3: "getInt (holeData (openFile staleHeaderFile) (packageOf staleHeaderFile RECOMPRESS)) 4
       = Inr (of_nat (length staleHeaderFile) + 1, 8)" by code_simp
  have 4: "processFile noCompression qfs_decompress RECOMPRESS staleHeaderFile = Inr Invalid"
    by code_simp
  from 1 2 3 4 show ?thesis by blast
qed

lemma length_packageBytes:
  assumes "length (remainder hdr) = 32"
  shows "length (packageBytes hdr mode P es)
    = 96 + length P + length (clstBytes (indexMinorVersion hdr) es)
      + length (concat (map (indexRecord (indexMinorVersion hdr))
                  (withClst (indexMinorVersion hdr) (96 + length P) es)))
      + (if mode = RECOMPRESS then 16 else 0)"
  using assms by (simp add: packageBytes_def Let_def headerWords_def)

text \<open>Reading the header of a written file gives the header that was written.\<close>

lemma getPackage_packageBytes_header:
  assumes rem: "length (remainder hdr) = 32"
    and small: "length (packageBytes hdr mode P es) < 2 ^ 32"
  shows "getPackage (openFile (packageBytes hdr mode P es)) m
    = checkHeader (openFile (packageBytes hdr mode P es))
        (of_nat (length (packageBytes hdr mode P es))) (writtenHeader hdr mode P es) m"
proof -
  define out where "out = packageBytes hdr mode P es"
  define minor where "minor = indexMinorVersion hdr"
  define es' where "es' = withClst minor (96 + length P) es"
  define ix where "ix = concat (map (indexRecord minor) es')"
  define iS where "iS = 96 + length P + length (clstBytes minor es)"
  define W where "W = [majorVersion hdr, minorVersion hdr, majorUserVersion hdr,
     minorUserVersion hdr, flags hdr, createdDate hdr, modifiedDate hdr, indexMajorVersion hdr,
     of_nat (length es'), of_nat iS, of_nat (length ix)]
     @ (if mode = RECOMPRESS then [1, of_nat (iS + length ix), 8] else [0, 0, 0]) @ [minor]"
  define rest where "rest = P @ clstBytes minor es @ ix
         @ (if mode = RECOMPRESS
            then concat (map le32 [of_nat (iS + length ix) + 8, 8, SIGNATURE, of_nat (iS + length ix) + 8 + 8])
            else [])"
  have out: "out = le32 DBPF_MAGIC @ concat (map le32 W) @ remainder hdr @ rest"
    by (simp add: out_def packageBytes_def Let_def headerWords_def W_def rest_def minor_def
          es'_def ix_def iS_def)
  have lenW: "length W = 15" by (simp add: W_def)
  have lenCW: "length (concat (map le32 W)) = 60" by (simp add: W_def)
  have len96: "96 \<le> length out" using rem by (simp add: out lenCW)
  have small': "length out < 2 ^ 32" using small by (simp add: out_def)
  have fs: "getFileSize (openFile out) = of_nat (length out)"
    by (simp add: getFileSize_def openFile_def)
  have nl: "\<not> (of_nat (length out) :: uint) < 96"
    using word_le_of_nat32 [of 96 "length out"] len96 small' by simp
  define H where "H = le32 DBPF_MAGIC @ concat (map le32 W) @ remainder hdr"
  have rd: "readFile (openFile out) 0 96 = (H, openFile out)"
    using readFile_openFile [of 0 96 out] len96 rem by (simp add: out lenCW H_def)
  have g0: "getInt H 0 = Inr (DBPF_MAGIC, 4)"
    using getInt_le32_at [of "[]" DBPF_MAGIC "concat (map le32 W) @ remainder hdr"]
    by (simp add: H_def)
  have g1: "getInts H 4 15 = Inr (W, 64)"
    using getInts_record [of W "concat (map le32 W)" 15 "le32 DBPF_MAGIC" "remainder hdr"] lenW lenCW
    by (simp add: H_def)
  have d64: "drop 64 H = remainder hdr"
    by (simp add: lenCW H_def)
  have mh: "makeHeader W (remainder hdr) = writtenHeader hdr mode P es"
    by (simp add: makeHeader_def W_def writtenHeader_def Let_def minor_def es'_def ix_def iS_def
          add.assoc)
  show ?thesis
    unfolding out_def [symmetric]
    by (simp add: getPackage_def fs nl rd g0 g1 d64 mh Let_def del: getInts.simps)
qed

lemma of_nat32_add: "(of_nat a :: uint) + of_nat b = of_nat (a + b)"
  by simp

lemma checkHeader_written:
  assumes v: "validHeader hdr" and rem: "length (remainder hdr) = 32"
    and small: "length (packageBytes hdr mode P es) < 2 ^ 32"
  shows "checkHeader f (of_nat (length (packageBytes hdr mode P es))) (writtenHeader hdr mode P es) m
    = getPackageBody f (of_nat (length (packageBytes hdr mode P es))) (writtenHeader hdr mode P es) m"
proof -
  define minor where "minor = indexMinorVersion hdr"
  define n where "n = length (withClst minor (96 + length P) es)"
  define lenI where "lenI = length (concat (map (indexRecord minor) (withClst minor (96 + length P) es)))"
  define iS where "iS = 96 + length P + length (clstBytes minor es)"
  define total where "total = length (packageBytes hdr mode P es)"
  have total: "total = iS + lenI + (if mode = RECOMPRESS then 16 else 0)"
    using length_packageBytes [OF rem, of mode P es]
    by (simp add: total_def iS_def lenI_def minor_def)
  have small': "total < 2 ^ 32" using small by (simp add: total_def)
  have lenI: "lenI = (if minor = 2 then 24 else 20) * n"
    by (simp add: lenI_def n_def length_index)
  have wh: "writtenHeader hdr mode P es =
      hdr\<lparr>indexEntryCount := of_nat n, indexLocation := of_nat iS, indexSize := of_nat lenI,
          holeIndexEntryCount := (if mode = RECOMPRESS then 1 else 0),
          holeIndexLocation := (if mode = RECOMPRESS then of_nat (iS + lenI) else 0),
          holeIndexSize := (if mode = RECOMPRESS then 8 else 0)\<rparr>"
    by (simp add: writtenHeader_def Let_def n_def lenI_def iS_def minor_def)
  have c1: "\<not> (of_nat total :: uint) < of_nat iS"
    by (rule word_le_of_nat32) (use total small' in auto)
  have c2: "\<not> (of_nat total :: uint) < of_nat iS + of_nat lenI"
    unfolding of_nat32_add by (rule word_le_of_nat32) (use total small' in auto)
  have c3: "(of_nat n :: uint) * 4 * 6 = of_nat lenI" if "minor = 2"
    using that by (simp add: lenI mult.commute)
  have c4: "(of_nat n :: uint) * 4 * 5 = of_nat lenI" if "minor \<noteq> 2"
    using that by (simp add: lenI mult.commute)
  have c5: "\<not> (of_nat total :: uint) < of_nat (iS + lenI)"
    by (rule word_le_of_nat32) (use total small' in auto)
  have c6: "\<not> (of_nat total :: uint) < of_nat (iS + lenI) + 8" if "mode = RECOMPRESS"
  proof -
    have "\<not> (of_nat total :: uint) < of_nat (iS + lenI + 8)"
      by (rule word_le_of_nat32) (use total small' that in auto)
    then show ?thesis by simp
  qed
  have c0: "\<not> (of_nat total :: uint) < 0" by simp
  show ?thesis
    unfolding total_def [symmetric] wh
    using v c1 c2 c3 c4 c5 c6
    by (auto simp: checkHeader_def validHeader_def Let_def minor_def)
qed

lemma readHoles_one:
  "readHoles (le32 a @ le32 b) 0 (Suc 0) = Inr [\<lparr>h_location = a, h_size = b\<rparr>]"
proof -
  have 1: "getInt (le32 a @ le32 b) 0 = Inr (a, 4)"
    using getInt_le32_at [of "[]" a "le32 b"] by simp
  have 2: "getInt (le32 a @ le32 b) 4 = Inr (b, 8)"
    using getInt_le32_at [of "le32 a" b "[]"] by simp
  show ?thesis by (simp add: 1 2)
qed

lemma getInt_pair:
  "getInt (le32 a @ le32 b) 0 = Inr (a, 4)" "getInt (le32 a @ le32 b) 4 = Inr (b, 8)"
  using getInt_le32_at [of "[]" a "le32 b"] getInt_le32_at [of "le32 a" b "[]"] by simp_all

lemma getPackageBody_written:
  assumes rem: "length (remainder hdr) = 32"
    and small: "length (packageBytes hdr mode P es) < 2 ^ 32"
  shows "getPackageBody (openFile (packageBytes hdr mode P es))
        (of_nat (length (packageBytes hdr mode P es))) (writtenHeader hdr mode P es) m
    = getPackageIndex (openFile (packageBytes hdr mode P es))
        (of_nat (length (packageBytes hdr mode P es))) (writtenHeader hdr mode P es) m
        (writtenHoles mode (length (packageBytes hdr mode P es))) (mode = RECOMPRESS)"
proof -
  define minor where "minor = indexMinorVersion hdr"
  define lenI where "lenI = length (concat (map (indexRecord minor) (withClst minor (96 + length P) es)))"
  define iS where "iS = 96 + length P + length (clstBytes minor es)"
  define out where "out = packageBytes hdr mode P es"
  define wh where "wh = writtenHeader hdr mode P es"
  define n where "n = iS + lenI"
  have total: "length out = n + (if mode = RECOMPRESS then 16 else 0)"
    using length_packageBytes [OF rem, of mode P es]
    by (simp add: out_def iS_def lenI_def minor_def n_def)
  have small': "length out < 2 ^ 32" using small by (simp add: out_def)
  have whs: "holeIndexEntryCount wh = (if mode = RECOMPRESS then 1 else 0)"
    "holeIndexLocation wh = (if mode = RECOMPRESS then of_nat n else 0)"
    "holeIndexSize wh = (if mode = RECOMPRESS then 8 else 0)"
    by (simp_all add: wh_def writtenHeader_def Let_def lenI_def iS_def minor_def n_def)
  show ?thesis
  proof (cases "mode = RECOMPRESS")
    case False
    have rd: "readFile (openFile out) 0 0 = ([], openFile out)"
      using readFile_openFile [of 0 0 out] by simp
    have "getPackageBody (openFile out) (of_nat (length out)) wh m
        = getPackageIndex (openFile out) (of_nat (length out)) wh m [] False"
      using False by (simp add: getPackageBody_def whs rd checkSignature_def)
    then show ?thesis
      using False unfolding out_def wh_def by (simp add: writtenHoles_def)
  next
    case True
    define a :: uint where "a = of_nat n + 8"
    have tl: "drop n out = le32 a @ le32 8 @ le32 SIGNATURE @ le32 (of_nat (length out))"
      using True rem total
      by (simp add: out_def packageBytes_def Let_def headerWords_def iS_def lenI_def minor_def
            a_def n_def add.assoc)
    have u1: "unat (of_nat n :: uint) = n"
      by (rule unat_of_nat32) (use total small' in auto)
    have ua: "unat a = n + 8"
    proof -
      have "a = of_nat (n + 8)" by (simp add: a_def)
      then show ?thesis using unat_of_nat32 [of "n + 8"] total small' True by simp
    qed
    have rd1: "readFile (openFile out) (of_nat n) 8 = (le32 a @ le32 8, openFile out)"
      using readFile_openFile [of "of_nat n" 8 out] total True
      by (simp add: u1 tl)
    have rd2: "readFile (openFile out) a 8 = (le32 SIGNATURE @ le32 (of_nat (length out)), openFile out)"
    proof -
      have "drop (n + 8) out = drop 8 (drop n out)"
        by (simp add: add.commute)
      then have "drop (n + 8) out = le32 SIGNATURE @ le32 (of_nat (length out))"
        by (simp add: tl)
      then show ?thesis
        using readFile_openFile [of a 8 out] total True by (simp add: ua)
    qed
    have b1: "\<not> (of_nat (length out) :: uint) < a"
    proof -
      have "\<not> (of_nat (length out) :: uint) < of_nat (n + 8)"
        by (rule word_le_of_nat32) (use total small' True in auto)
      then show ?thesis by (simp add: a_def)
    qed
    have b2: "\<not> (of_nat (length out) :: uint) < a + 8"
    proof -
      have "\<not> (of_nat (length out) :: uint) < of_nat (n + 16)"
        by (rule word_le_of_nat32) (use total small' True in auto)
      then show ?thesis by (simp add: a_def add.commute)
    qed
    have cs: "checkSignature (openFile out) (of_nat (length out)) wh [\<lparr>h_location = a, h_size = 8\<rparr>]
         = Inr (Some True, openFile out)"
      using True b1 b2 by (simp add: checkSignature_def whs rd2 getInt_pair)
    have "getPackageBody (openFile out) (of_nat (length out)) wh m
        = getPackageIndex (openFile out) (of_nat (length out)) wh m [\<lparr>h_location = a, h_size = 8\<rparr>] True"
      using True by (simp add: getPackageBody_def whs rd1 readHoles_one cs del: readHoles.simps)
    moreover have "a = of_nat (length out - 8)"
      using total True by (simp add: a_def)
    ultimately show ?thesis
      using True unfolding out_def wh_def by (simp add: writtenHoles_def)
  qed
qed

lemma getPackageIndex_written:
  assumes rem: "length (remainder hdr) = 32"
    and small: "length (packageBytes hdr mode P es) < 2 ^ 32"
    and noclst: "\<forall>e\<in>set es. e_type e \<noteq> CLST_TYPE"
    and inb: "\<forall>e\<in>set es. \<exists>a b. e_location e = of_nat a \<and> e_size e = of_nat b
                \<and> a + b \<le> 96 + length P"
  shows "getPackageIndex (openFile (packageBytes hdr mode P es))
        (of_nat (length (packageBytes hdr mode P es))) (writtenHeader hdr mode P es) m hs sg
    = finishPackage (openFile (packageBytes hdr mode P es)) (writtenHeader hdr mode P es) m hs sg
        (map (strip (indexMinorVersion hdr)) es) (clstBytes (indexMinorVersion hdr) es)"
proof -
  define minor where "minor = indexMinorVersion hdr"
  define C where "C = clstBytes minor es"
  define cl where "cl = 96 + length P"
  define es' where "es' = withClst minor cl es"
  define I where "I = concat (map (indexRecord minor) es')"
  define iS where "iS = cl + length C"
  define out where "out = packageBytes hdr mode P es"
  define wh where "wh = writtenHeader hdr mode P es"
  define fl where "fl = openFile out"
  define fs :: uint where "fs = of_nat (length out)"
  have tot: "length out = iS + length I + (if mode = RECOMPRESS then 16 else 0)"
    using length_packageBytes [OF rem, of mode P es]
    by (simp add: out_def iS_def I_def es'_def C_def cl_def minor_def)
  have small': "length out < 2 ^ 32" using small by (simp add: out_def)
  have whs: "indexLocation wh = of_nat iS" "indexSize wh = of_nat (length I)"
    "indexEntryCount wh = of_nat (length es')" "indexMinorVersion wh = minor"
    by (simp_all add: wh_def writtenHeader_def Let_def iS_def I_def es'_def C_def cl_def minor_def)
  have dC: "drop cl out = C @ I @ drop (iS + length I) out"
    using rem
    by (simp add: out_def packageBytes_def Let_def headerWords_def iS_def I_def es'_def C_def
          cl_def minor_def)
  have dI: "drop iS out = I @ drop (iS + length I) out"
  proof -
    have "drop iS out = drop (length C) (drop cl out)" by (simp add: iS_def add.commute)
    then show ?thesis by (simp add: dC)
  qed
  have lenI: "length I = (if minor = 2 then 24 else 20) * length es'"
    by (simp add: I_def length_index)
  have n_le: "length es' \<le> length I" by (simp add: lenI)
  have u: "unat (of_nat iS :: uint) = iS" "unat (of_nat (length I) :: uint) = length I"
    "unat (of_nat (length es') :: uint) = length es'"
    "unat (of_nat cl :: uint) = cl" "unat (of_nat (length C) :: uint) = length C"
  proof -
    have "iS < 2 ^ 32" "length I < 2 ^ 32" "length es' < 2 ^ 32" "cl < 2 ^ 32" "length C < 2 ^ 32"
      using tot small' n_le by (auto simp: iS_def)
    then show "unat (of_nat iS :: uint) = iS" "unat (of_nat (length I) :: uint) = length I"
      "unat (of_nat (length es') :: uint) = length es'"
      "unat (of_nat cl :: uint) = cl" "unat (of_nat (length C) :: uint) = length C"
      by (simp_all add: unat_of_nat32)
  qed
  have rdI: "readFile fl (of_nat iS) (of_nat (length I)) = (I, fl)"
    unfolding fl_def using readFile_openFile [of "of_nat iS" "of_nat (length I)" out] tot
    by (simp add: u dI)
  have rdC: "readFile fl (of_nat cl) (of_nat (length C)) = (C, fl)"
    unfolding fl_def using readFile_openFile [of "of_nat cl" "of_nat (length C)" out] tot
    by (simp add: u dC iS_def)
  have inb': "\<forall>e\<in>set es. \<not> (e_location e > fs \<or> e_location e + e_size e > fs)"
  proof
    fix e assume "e \<in> set es"
    with inb obtain a b where ab: "e_location e = of_nat a" "e_size e = of_nat b"
      "a + b \<le> 96 + length P" by blast
    have le: "a + b \<le> length out" "a \<le> length out"
      using ab(3) tot by (simp_all add: iS_def cl_def)
    have 1: "\<not> (of_nat (length out) :: uint) < of_nat a"
      by (rule word_le_of_nat32 [OF le(2) small'])
    have 2: "\<not> (of_nat (length out) :: uint) < of_nat (a + b)"
      by (rule word_le_of_nat32 [OF le(1) small'])
    show "\<not> (e_location e > fs \<or> e_location e + e_size e > fs)"
      using 1 2 by (simp add: ab fs_def)
  qed
  have ri: "readIndex fl fs minor I 0 (length es') [] []
      = Inr (Some (map (strip minor) es, C, fl))"
  proof (cases "C = []")
    case True
    then have e: "es' = es" by (simp add: es'_def withClst_def C_def)
    show ?thesis
      using readIndex_records [OF noclst inb', of fl minor "[]" "[]" 0 "[]" "[]"] True
      by (simp add: I_def e)
  next
    case False
    define ce where "ce = clstEntry cl (length C)"
    have e: "es' = es @ [ce]" using False by (simp add: es'_def withClst_def C_def ce_def)
    have ce: "e_type ce = CLST_TYPE" "e_location ce = of_nat cl" "e_size ce = of_nat (length C)"
      by (simp_all add: ce_def clstEntry_def)
    have I: "I = concat (map (indexRecord minor) es) @ indexRecord minor ce"
      by (simp add: I_def e)
    have b1: "\<not> (of_nat (length out) :: uint) < of_nat cl"
      by (rule word_le_of_nat32) (use tot small' in \<open>auto simp: iS_def\<close>)
    have b2: "\<not> (of_nat (length out) :: uint) < of_nat (cl + length C)"
      by (rule word_le_of_nat32) (use tot small' in \<open>auto simp: iS_def\<close>)
    have b: "\<not> (e_location ce > fs \<or> e_location ce + e_size ce > fs)"
      using b1 b2 by (simp add: ce fs_def)
    have s1: "readIndex fl fs minor I 0 (length es') [] []
        = readIndex fl fs minor I (length (concat (map (indexRecord minor) es))) (Suc 0)
            (map (strip minor) es) []"
      using readIndex_records [OF noclst inb', of fl minor "[]" "indexRecord minor ce" "Suc 0" "[]" "[]"]
      by (simp add: I e)
    have s2: "readIndex fl fs minor I (length (concat (map (indexRecord minor) es))) (Suc 0)
            (map (strip minor) es) []
        = Inr (Some (map (strip minor) es, C, fl))"
      using readIndex_record [OF b, of fl minor "concat (map (indexRecord minor) es)" "[]" 0
               "map (strip minor) es" "[]"]
      by (simp add: I ce rdC del: readIndex.simps(2))
    show ?thesis by (simp only: s1 s2)
  qed
  have "getPackageIndex fl fs wh m hs sg = finishPackage fl wh m hs sg (map (strip minor) es) C"
    by (simp add: getPackageIndex_def whs rdI u ri)
  then show ?thesis
    by (simp add: fl_def fs_def wh_def out_def C_def minor_def)
qed

lemma finishPackage_written:
  assumes "indexMinorVersion wh = minor"
  shows "\<exists>ces. finishPackage f wh m hs sg (map (strip minor) es) (clstBytes minor es)
      = Inr (\<lparr>unpacked = True, signature_in_package = sg, header = wh,
               entries = (let es1 = (if clstBytes minor es = [] then map (strip minor) es
                                     else map (markCompressed ces) (map (strip minor) es))
                          in if m = RECOMPRESS then markRepeated (length es1) 0 Map.empty es1
                             else es1),
               holes = hs, compressedEntries = ces\<rparr>, f)
    \<and> (clstBytes minor es = [] \<longrightarrow> ces = Map.empty)"
proof (cases "clstBytes minor es = []")
  case True
  then show ?thesis by (simp add: finishPackage_def Let_def)
next
  case False
  from readClst_records [of minor "[]" "filter compressed es" Map.empty]
  obtain m' where "readClst minor (clstBytes minor es) 0 Map.empty = Inr m'"
    by (auto simp: clstBytes_def)
  then show ?thesis
    using False assms by (simp add: finishPackage_def Let_def)
qed

lemma getPackage_written:
  assumes v: "validHeader hdr" and rem: "length (remainder hdr) = 32"
    and small: "length (packageBytes hdr mode P es) < 2 ^ 32"
    and noclst: "\<forall>e\<in>set es. e_type e \<noteq> CLST_TYPE"
    and inb: "\<forall>e\<in>set es. \<exists>a b. e_location e = of_nat a \<and> e_size e = of_nat b
                \<and> a + b \<le> 96 + length P"
  shows "\<exists>ces. getPackage (openFile (packageBytes hdr mode P es)) m
      = Inr (\<lparr>unpacked = True, signature_in_package = (mode = RECOMPRESS),
               header = writtenHeader hdr mode P es,
               entries = (let minor = indexMinorVersion hdr;
                              es1 = (if clstBytes minor es = [] then map (strip minor) es
                                     else map (markCompressed ces) (map (strip minor) es))
                          in if m = RECOMPRESS then markRepeated (length es1) 0 Map.empty es1
                             else es1),
               holes = writtenHoles mode (length (packageBytes hdr mode P es)),
               compressedEntries = ces\<rparr>, openFile (packageBytes hdr mode P es))
    \<and> (clstBytes (indexMinorVersion hdr) es = [] \<longrightarrow> ces = Map.empty)"
proof -
  have mv: "indexMinorVersion (writtenHeader hdr mode P es) = indexMinorVersion hdr"
    by (simp add: writtenHeader_def Let_def)
  have "getPackage (openFile (packageBytes hdr mode P es)) m
      = finishPackage (openFile (packageBytes hdr mode P es)) (writtenHeader hdr mode P es) m
          (writtenHoles mode (length (packageBytes hdr mode P es))) (mode = RECOMPRESS)
          (map (strip (indexMinorVersion hdr)) es) (clstBytes (indexMinorVersion hdr) es)"
    by (simp only: getPackage_packageBytes_header [OF rem small]
          checkHeader_written [OF v rem small] getPackageBody_written [OF rem small]
          getPackageIndex_written [OF rem small noclst inb])
  with finishPackage_written [OF mv] show ?thesis
    by (simp add: Let_def)
qed

lemma putPackage_InrD:
  assumes rem: "length (remainder (header p)) = 32"
    and pp: "putPackage qc qd oldFile p mode = Inr r"
  shows "\<exists>es P f'. writeEntries qc qd mode oldFile (headerBytes (header p)) (entries p)
            = Inr (es, headerBytes (header p) @ P, f')"
proof -
  from pp obtain x where
    x: "writeEntries qc qd mode oldFile (headerBytes (header p)) (entries p) = Inr x"
    by (auto simp: putPackage_def writeHeader_closed [OF rem] bindE_eq_Inr)
  obtain es nf f' where x': "x = (es, nf, f')" by (cases x)
  from writeEntries_props [OF x [unfolded x']] obtain P where "nf = headerBytes (header p) @ P"
    by blast
  with x x' show ?thesis by blast
qed

lemma sameKeys_type:
  assumes "list_all2 sameKeys es es0" and "\<forall>e\<in>set es0. e_type e \<noteq> t"
  shows "\<forall>e\<in>set es. e_type e \<noteq> t"
  using assms by (induction rule: list_all2_induct) (auto simp: sameKeys_def)

text \<open>
  A package that the reader has unpacked, written by \<^verbatim>\<open>putPackage\<close> to a file of less
  than \<open>2 ^ 32\<close> bytes: the file has the closed form, and the reader unpacks it.
\<close>

lemma putPackage_getPackage:
  assumes gp: "getPackage f0 m0 = Inr (p, f)" and un: "unpacked p"
    and pp: "putPackage qc qd f p mode = Inr (out, p', f')"
    and small: "length out < 2 ^ 32"
  shows "\<exists>es P ces. list_all2 sameKeys es (entries p)
      \<and> (\<forall>e\<in>set es. e_type e \<noteq> CLST_TYPE)
      \<and> p' = p\<lparr>entries := withClst (indexMinorVersion (header p)) (96 + length P) es\<rparr>
      \<and> out = packageBytes (header p) mode P es
      \<and> getPackage (openFile out) m
          = Inr (\<lparr>unpacked = True, signature_in_package = (mode = RECOMPRESS),
               header = writtenHeader (header p) mode P es,
               entries = (let minor = indexMinorVersion (header p);
                              es1 = (if clstBytes minor es = [] then map (strip minor) es
                                     else map (markCompressed ces) (map (strip minor) es))
                          in if m = RECOMPRESS then markRepeated (length es1) 0 Map.empty es1
                             else es1),
               holes = writtenHoles mode (length out),
               compressedEntries = ces\<rparr>, openFile out)
      \<and> (clstBytes (indexMinorVersion (header p)) es = [] \<longrightarrow> ces = Map.empty)"
proof -
  note w = getPackage_writable [OF gp un]
  from putPackage_InrD [OF w(2) pp] obtain es P f1 where
    we: "writeEntries qc qd mode f (headerBytes (header p)) (entries p)
           = Inr (es, headerBytes (header p) @ P, f1)" by blast
  from writeEntries_props [OF we] have
    sk: "list_all2 sameKeys es (entries p)" and
    loc: "\<forall>e\<in>set es. \<exists>a b. e_location e = of_nat a \<and> e_size e = of_nat b
            \<and> length (headerBytes (header p)) \<le> a
            \<and> a + b \<le> length (headerBytes (header p) @ P)"
    by blast+
  have len: "length es = length (entries p)" using sk by (rule list_all2_lengthD)
  have bound: "length es * 20 < 2 ^ 32"
    using w(4) unfolding len by (auto split: if_splits)
  note closed = putPackage_closed [OF w(2) we bound]
  from pp closed have out: "out = packageBytes (header p) mode P es"
    and p': "p' = p\<lparr>entries := withClst (indexMinorVersion (header p)) (96 + length P) es\<rparr>"
    by simp_all
  have noclst: "\<forall>e\<in>set es. e_type e \<noteq> CLST_TYPE"
    by (rule sameKeys_type [OF sk w(3)])
  have inb: "\<forall>e\<in>set es. \<exists>a b. e_location e = of_nat a \<and> e_size e = of_nat b
                \<and> a + b \<le> 96 + length P"
    using loc by (simp add: length_headerBytes [OF w(2)]) blast
  from getPackage_written [OF w(1) w(2) small [unfolded out] noclst inb, of m]
  show ?thesis
    using sk noclst p' out by blast
qed

lemma returns_written:
  assumes "returns (putPackage qc qd (streamOf bs mode) (packageOf bs mode) mode)"
  shows "\<exists>f'. putPackage qc qd (streamOf bs mode) (packageOf bs mode) mode
           = Inr (writtenBytes qc qd bs mode, writtenPackage qc qd bs mode, f')"
  using assms
  by (auto simp: returns_def writtenBytes_def writtenPackage_def split: sum.splits)

lemma getInt_concat_le32:
  assumes "k < length ws"
  shows "getInt (concat (map le32 ws) @ rest) (4 * k) = Inr (ws ! k, 4 * k + 4)"
proof -
  have ws: "ws = take k ws @ ws ! k # drop (Suc k) ws"
    using assms by (rule id_take_nth_drop)
  have len: "length (concat (map le32 (take k ws))) = 4 * k"
    using assms by (induction ws arbitrary: k) (auto simp: length_le32 take_Cons split: nat.splits)
  have "concat (map le32 ws) @ rest
      = concat (map le32 (take k ws)) @ le32 (ws ! k) @ (concat (map le32 (drop (Suc k) ws)) @ rest)"
    by (subst ws) simp
  then show ?thesis
    using getInt_le32_at [of "concat (map le32 (take k ws))" "ws ! k"
            "concat (map le32 (drop (Suc k) ws)) @ rest"]
    by (simp add: len)
qed

lemma le32_SIGNATURE: "le32 SIGNATURE = [0x42, 0x52, 0x47, 0x35]"
  by code_simp

lemma packageBytes_RECOMPRESS:
  assumes rem: "length (remainder hdr) = 32"
  shows "16 \<le> length (packageBytes hdr RECOMPRESS P es)"
    and "drop (length (packageBytes hdr RECOMPRESS P es) - 16) (packageBytes hdr RECOMPRESS P es)
      = le32 (of_nat (length (packageBytes hdr RECOMPRESS P es) - 8)) @ le32 8
        @ le32 SIGNATURE @ le32 (of_nat (length (packageBytes hdr RECOMPRESS P es)))"
    and "getInt (packageBytes hdr RECOMPRESS P es) 48 = Inr (1, 52)"
    and "getInt (packageBytes hdr RECOMPRESS P es) 52
      = Inr (of_nat (length (packageBytes hdr RECOMPRESS P es) - 16), 56)"
    and "getInt (packageBytes hdr RECOMPRESS P es) 56 = Inr (8, 60)"
proof -
  define minor where "minor = indexMinorVersion hdr"
  define n where "n = 96 + length P + length (clstBytes minor es)
     + length (concat (map (indexRecord minor) (withClst minor (96 + length P) es)))"
  define out where "out = packageBytes hdr RECOMPRESS P es"
  define ws where "ws = headerWords hdr
           @ [of_nat (length (withClst minor (96 + length P) es)),
              of_nat (96 + length P + length (clstBytes minor es)),
              of_nat (length (concat (map (indexRecord minor) (withClst minor (96 + length P) es))))]
           @ [1, of_nat n, 8] @ [minor]"
  have tot: "length out = n + 16"
    using length_packageBytes [OF rem, of RECOMPRESS P es]
    by (simp add: out_def n_def minor_def)
  show "16 \<le> length (packageBytes hdr RECOMPRESS P es)"
    using tot by (simp add: out_def)
  have tl: "drop n out = le32 (of_nat n + 8) @ le32 8 @ le32 SIGNATURE @ le32 (of_nat (length out))"
    using rem tot
    by (simp add: out_def packageBytes_def Let_def headerWords_def n_def minor_def add.assoc)
  have "of_nat n + (8 :: uint) = of_nat (length out - 8)"
    using tot by simp
  with tl tot
  show "drop (length (packageBytes hdr RECOMPRESS P es) - 16) (packageBytes hdr RECOMPRESS P es)
      = le32 (of_nat (length (packageBytes hdr RECOMPRESS P es) - 8)) @ le32 8
        @ le32 SIGNATURE @ le32 (of_nat (length (packageBytes hdr RECOMPRESS P es)))"
    by (simp add: out_def [symmetric])
  have oe: "\<exists>rest. out = concat (map le32 ws) @ rest"
    by (simp add: out_def packageBytes_def Let_def ws_def n_def minor_def)
  then obtain rest where o: "out = concat (map le32 ws) @ rest" by blast
  have lw: "length ws = 16" by (simp add: ws_def headerWords_def)
  have w: "ws ! 12 = 1" "ws ! 13 = of_nat n" "ws ! 14 = 8"
    by (simp_all add: ws_def headerWords_def)
  have "getInt out (4 * 12) = Inr (ws ! 12, 4 * 12 + 4)"
    unfolding o by (rule getInt_concat_le32) (simp add: lw)
  then show "getInt (packageBytes hdr RECOMPRESS P es) 48 = Inr (1, 52)"
    by (simp add: w out_def)
  have "getInt out (4 * 13) = Inr (ws ! 13, 4 * 13 + 4)"
    unfolding o by (rule getInt_concat_le32) (simp add: lw)
  then show "getInt (packageBytes hdr RECOMPRESS P es) 52
      = Inr (of_nat (length (packageBytes hdr RECOMPRESS P es) - 16), 56)"
    using tot by (simp add: w out_def)
  have "getInt out (4 * 14) = Inr (ws ! 14, 4 * 14 + 4)"
    unfolding o by (rule getInt_concat_le32) (simp add: lw)
  then show "getInt (packageBytes hdr RECOMPRESS P es) 56 = Inr (8, 60)"
    by (simp add: w out_def)
qed

lemma clstBytes_empty_iff: "clstBytes minor es = [] \<longleftrightarrow> (\<forall>e\<in>set es. \<not> compressed e)"
proof -
  have "clstBytes minor es = [] \<longleftrightarrow> length (clstBytes minor es) = 0" by simp
  also have "\<dots> \<longleftrightarrow> filter compressed es = []"
    unfolding length_clstBytes by simp
  finally show ?thesis by (simp add: filter_empty_conv)
qed

lemma strip_compressed [simp]: "\<not> compressed (strip minor e)"
  by (simp add: strip_def)

lemma getPackageIndex_rejected:
  assumes "getPackageIndex file fileSize hdr mode hs sg = Inr (p, f')" and "\<not> unpacked p"
  shows "entries p = []"
  using assms
  by (auto simp: getPackageIndex_def bindE_eq_Inr case_prod_beta
           split: option.splits dest: finishPackage_fields(1))

lemma getPackageBody_rejected:
  assumes "getPackageBody file fileSize hdr mode = Inr (p, f')" and "\<not> unpacked p"
  shows "entries p = []"
  using assms
  by (auto simp: getPackageBody_def bindE_eq_Inr case_prod_beta
           split: option.splits dest: getPackageIndex_rejected)

lemma checkHeader_rejected:
  assumes "checkHeader file fileSize hdr mode = Inr (p, f')" and "\<not> unpacked p"
  shows "entries p = []"
  using assms
  by (auto simp: checkHeader_def Let_def split: if_splits dest: getPackageBody_rejected)

lemma getPackage_rejected:
  assumes "getPackage file mode = Inr (p, f')" and "\<not> unpacked p"
  shows "entries p = []"
  using assms
  by (auto simp: getPackage_def Let_def case_prod_beta bindE_eq_Inr
           split: if_splits dest: checkHeader_rejected)

lemma packageBytes_clst:
  assumes rem: "length (remainder hdr) = 32"
  shows "take (length (clstBytes (indexMinorVersion hdr) es))
           (drop (96 + length P) (packageBytes hdr mode P es))
         = clstBytes (indexMinorVersion hdr) es"
  using rem by (simp add: packageBytes_def Let_def headerWords_def)






section \<open>The per-entry transforms\<close>

lemma decompressEntry_not_compressed:
  "\<not> compressed entry \<Longrightarrow> decompressEntry qd entry content = Inr (entry, content)"
  by (simp add: decompressEntry_def)

lemma decompressEntry_result:
  assumes "decompressEntry qd entry content = Inr (e1, c1)"
  shows "(e1 = entry \<and> c1 = content) \<or> (compressed entry \<and> \<not> compressed e1)"
  using assms
  by (auto simp: decompressEntry_def bindE_eq_Inr Let_def case_prod_beta split: if_splits)

text \<open>
  C9. For an entry marked compressed, when the call of the decompressor that
  \<^verbatim>\<open>decompressEntry\<close> makes (on the payload, with the size the payload's header
  declares) reports failure, the function returns the payload as it was and the
  entry as it was, so the entry is still marked compressed.
\<close>

theorem decompressEntry_failure_keeps_entry:
  assumes "compressed entry"
    and "getUncompressedSize content = Inr n"
    and "\<not> fst (qd content (unat n))"
  shows "decompressEntry qd entry content = Inr (entry, content) \<and> compressed entry"
  using assms by (simp add: decompressEntry_def Let_def case_prod_beta)

theorem decompressEntry_failure_witness:
  "compressed entryA \<and> getUncompressedSize corrupt12 = Inr 18
   \<and> fst (qfs_decompress corrupt12 (unat (18 :: uint))) = False
   \<and> decompressEntry qfs_decompress entryA corrupt12 = Inr (entryA, corrupt12)"
proof -
  have 1: "compressed entryA" by (simp add: entryA_def)
  have 2: "getUncompressedSize corrupt12 = Inr 18" by code_simp
  have 3: "\<not> fst (qfs_decompress corrupt12 (unat (18 :: uint)))" by code_simp
  from decompressEntry_failure_keeps_entry
         [where qd = qfs_decompress and entry = entryA and content = corrupt12 and n = 18] 1 2 3
  show ?thesis by simp
qed

text \<open>
  C10. For an entry marked compressed, \<^verbatim>\<open>decompressEntry\<close> returns exactly when the
  payload has at least 9 bytes: then the reads of bytes 6, 7 and 8 in
  \<^verbatim>\<open>getUncompressedSize\<close>, the only indexed accesses the function makes, are in
  bounds; with a shorter payload one of them is out of bounds.
\<close>

theorem decompressEntry_total_iff:
  assumes "compressed entry"
  shows "(9 \<le> length content \<longrightarrow> (\<exists>entry' out. decompressEntry qd entry content = Inr (entry', out)))
       \<and> (length content < 9 \<longrightarrow> decompressEntry qd entry content = Inl OutOfBounds)"
  using assms
  by (auto simp: decompressEntry_def getUncompressedSize_def Let_def case_prod_beta)

theorem decompressEntry_total_witness:
  "compressed entryA \<and> 9 \<le> length payload18
   \<and> decompressEntry qfs_decompress entryA payload18
       = Inr (entryA\<lparr>compressed := False\<rparr>, [1, 2, 3, 4, 4, 4, 4, 4, 4, 4, 4, 4, 4, 4, 4, 4, 4, 4])
   \<and> length (take 8 payload18) < 9
   \<and> decompressEntry qfs_decompress entryA (take 8 payload18) = Inl OutOfBounds"
proof -
  have 1: "compressed entryA" by (simp add: entryA_def)
  have 2: "9 \<le> length payload18" by (simp add: payload18_def)
  have 3: "length (take 8 payload18) < 9" by simp
  have 4: "decompressEntry qfs_decompress entryA payload18
       = Inr (entryA\<lparr>compressed := False\<rparr>, [1, 2, 3, 4, 4, 4, 4, 4, 4, 4, 4, 4, 4, 4, 4, 4, 4, 4])"
    by code_simp
  from decompressEntry_total_iff
         [where qd = qfs_decompress and entry = entryA and content = "take 8 payload18"] 1 3
  have 5: "decompressEntry qfs_decompress entryA (take 8 payload18) = Inl OutOfBounds"
    by blast
  from 1 2 3 4 5 show ?thesis by simp
qed

lemma decompressEntry_Inl:
  "decompressEntry qd entry content = Inl err \<longleftrightarrow>
     err = OutOfBounds \<and> compressed entry \<and> length content < 9"
  by (auto simp: decompressEntry_def getUncompressedSize_def Let_def case_prod_beta)

lemma compressEntry_Inl:
  "compressEntry qc entry content = Inl err \<longleftrightarrow>
     err = LengthError \<and> \<not> compressed entry \<and> \<not> repeated entry \<and> content = []"
  by (auto simp: compressEntry_def Let_def case_prod_beta)

lemma recompressEntry_Inl:
  "recompressEntry qc qd entry content = Inl err \<longleftrightarrow>
     decompressEntry qd entry content = Inl err
     \<or> (\<exists>e1 c1. decompressEntry qd entry content = Inr (e1, c1) \<and> compressEntry qc e1 c1 = Inl err)"
  by (cases "decompressEntry qd entry content"; cases "compressEntry qc (fst (projr (decompressEntry qd entry content))) (snd (projr (decompressEntry qd entry content)))")
     (auto simp: recompressEntry_def Let_def case_prod_beta)

text \<open>
  C5, as amended. \<^verbatim>\<open>recompressEntry\<close> stops with \<open>OutOfBounds\<close> exactly when the entry
  is compressed and the payload has fewer than 9 bytes, with \<open>LengthError\<close> exactly
  when \<^verbatim>\<open>decompressEntry\<close> leaves an empty payload for an entry that is then neither
  compressed nor repeated, and with no other error. In every other case, with \<open>c2\<close>
  the transformed payload (the payload after \<^verbatim>\<open>decompressEntry\<close> and then
  \<^verbatim>\<open>compressEntry\<close>), it returns \<open>c2\<close> (with the entry as the two transforms left it)
  when \<open>c2\<close> is strictly shorter than the original payload, and only then; otherwise
  it returns the original payload and the entry is exactly as before the call, its
  compressed flag included.
\<close>

theorem recompressEntry_keeps_smaller:
  "(recompressEntry qc qd entry content = Inl OutOfBounds
      \<longleftrightarrow> compressed entry \<and> length content < 9)
   \<and> (recompressEntry qc qd entry content = Inl LengthError
      \<longleftrightarrow> (\<exists>e1. decompressEntry qd entry content = Inr (e1, [])
                \<and> \<not> compressed e1 \<and> \<not> repeated e1))
   \<and> recompressEntry qc qd entry content \<noteq> Inl InvalidIterator
   \<and> (\<forall>e1 c1 e2 c2.
        decompressEntry qd entry content = Inr (e1, c1) \<and> compressEntry qc e1 c1 = Inr (e2, c2)
        \<longrightarrow> (length c2 < length content
               \<longrightarrow> recompressEntry qc qd entry content = Inr (e2, c2))
          \<and> (\<not> length c2 < length content
               \<longrightarrow> recompressEntry qc qd entry content = Inr (entry, content)))"
proof -
  have keep: "(length c2 < length content
               \<longrightarrow> recompressEntry qc qd entry content = Inr (e2, c2))
          \<and> (\<not> length c2 < length content
               \<longrightarrow> recompressEntry qc qd entry content = Inr (entry, content))"
    if d: "decompressEntry qd entry content = Inr (e1, c1)"
      and c: "compressEntry qc e1 c1 = Inr (e2, c2)" for e1 c1 e2 c2
  proof -
    have "e2\<lparr>compressed := compressed entry\<rparr> = entry\<lparr>compressed := compressed entry\<rparr>"
      using compressEntry_only_flag [OF c] decompressEntry_only_flag [OF d] by simp
    then have "e2\<lparr>compressed := compressed entry\<rparr> = entry" by simp
    then show ?thesis using d c by (simp add: recompressEntry_def Let_def)
  qed
  have 1: "recompressEntry qc qd entry content = Inl OutOfBounds
      \<longleftrightarrow> compressed entry \<and> length content < 9"
    by (auto simp: recompressEntry_Inl decompressEntry_Inl compressEntry_Inl)
  have 2: "recompressEntry qc qd entry content = Inl LengthError
      \<longleftrightarrow> (\<exists>e1. decompressEntry qd entry content = Inr (e1, [])
                \<and> \<not> compressed e1 \<and> \<not> repeated e1)"
    by (auto simp: recompressEntry_Inl decompressEntry_Inl compressEntry_Inl)
  have 3: "recompressEntry qc qd entry content \<noteq> Inl InvalidIterator"
    by (auto simp: recompressEntry_Inl decompressEntry_Inl compressEntry_Inl)
  from 1 2 3 keep show ?thesis by blast
qed

theorem recompressEntry_keeps_smaller_witness:
  "recompressEntry noCompression qfs_decompress entryA payload18 = Inr (entryA, payload18)
   \<and> decompressEntry qfs_decompress entryA payload18b
       = Inr (entryA\<lparr>compressed := False\<rparr>, [1, 2, 3, 4, 5, 6, 7])
   \<and> compressEntry noCompression (entryA\<lparr>compressed := False\<rparr>) [1, 2, 3, 4, 5, 6, 7]
       = Inr (entryA\<lparr>compressed := False\<rparr>, [1, 2, 3, 4, 5, 6, 7])
   \<and> recompressEntry noCompression qfs_decompress entryA payload18b
       = Inr (entryA\<lparr>compressed := False\<rparr>, [1, 2, 3, 4, 5, 6, 7])
   \<and> recompressEntry noCompression qfs_decompress entryB [1, 2, 3, 4] = Inr (entryB, [1, 2, 3, 4])"
proof -
  have 1: "decompressEntry qfs_decompress entryA payload18
     = Inr (entryA\<lparr>compressed := False\<rparr>, [1, 2, 3, 4, 4, 4, 4, 4, 4, 4, 4, 4, 4, 4, 4, 4, 4, 4])"
    by code_simp
  have 2: "compressEntry noCompression (entryA\<lparr>compressed := False\<rparr>)
        [1, 2, 3, 4, 4, 4, 4, 4, 4, 4, 4, 4, 4, 4, 4, 4, 4, 4]
     = Inr (entryA\<lparr>compressed := False\<rparr>, [1, 2, 3, 4, 4, 4, 4, 4, 4, 4, 4, 4, 4, 4, 4, 4, 4, 4])"
    by code_simp
  have 3: "decompressEntry qfs_decompress entryA payload18b
       = Inr (entryA\<lparr>compressed := False\<rparr>, [1, 2, 3, 4, 5, 6, 7])" by code_simp
  have 4: "compressEntry noCompression (entryA\<lparr>compressed := False\<rparr>) [1, 2, 3, 4, 5, 6, 7]
       = Inr (entryA\<lparr>compressed := False\<rparr>, [1, 2, 3, 4, 5, 6, 7])" by code_simp
  have 5: "decompressEntry qfs_decompress entryB [1, 2, 3, 4] = Inr (entryB, [1, 2, 3, 4])"
    by code_simp
  have 6: "compressEntry noCompression entryB [1, 2, 3, 4] = Inr (entryB, [1, 2, 3, 4])"
    by code_simp
  note t = recompressEntry_keeps_smaller
  from t [of noCompression qfs_decompress entryA payload18] 1 2
  have a: "recompressEntry noCompression qfs_decompress entryA payload18 = Inr (entryA, payload18)"
    by (simp add: payload18_def)
  from t [of noCompression qfs_decompress entryA payload18b] 3 4
  have b: "recompressEntry noCompression qfs_decompress entryA payload18b
       = Inr (entryA\<lparr>compressed := False\<rparr>, [1, 2, 3, 4, 5, 6, 7])"
    by (simp add: payload18b_def)
  from t [of noCompression qfs_decompress entryB "[1, 2, 3, 4]"] 5 6
  have c: "recompressEntry noCompression qfs_decompress entryB [1, 2, 3, 4]
       = Inr (entryB, [1, 2, 3, 4])"
    by simp
  from a b c 3 4 show ?thesis by simp
qed

text \<open>
  Two calls that do not return: an empty payload of an entry that is neither
  compressed nor repeated, and a payload of eight bytes of a compressed entry.
\<close>

theorem recompressEntry_does_not_return:
  "recompressEntry noCompression qfs_decompress entryB [] = Inl LengthError
   \<and> recompressEntry noCompression qfs_decompress entryA (take 8 payload18) = Inl OutOfBounds"
proof -
  have 1: "recompressEntry noCompression qfs_decompress entryB [] = Inl LengthError"
    by code_simp
  have 2: "recompressEntry noCompression qfs_decompress entryA (take 8 payload18) = Inl OutOfBounds"
    by code_simp
  from 1 2 show ?thesis by simp
qed




section \<open>Writing a package and reading it back\<close>

text \<open>
  C3. Let \<open>p\<close> be a package that the reader has unpacked and \<open>out\<close> the file that
  \<^verbatim>\<open>putPackage\<close> writes for it in RECOMPRESS mode, of less than \<open>2 ^ 32\<close> bytes. The
  last 16 bytes of \<open>out\<close> are the hole index, which holds the location of the
  last 8 bytes and the size 8, and then the hole, which holds the bytes "BRG5" and
  the length of \<open>out\<close> as a little-endian word. The header of \<open>out\<close> has the word 1
  at offset 48 (\<^verbatim>\<open>holeIndexEntryCount\<close>), the location of the hole index at offset 52
  and the word 8 at offset 56 (\<^verbatim>\<open>holeIndexSize\<close>). The loop body of \<^verbatim>\<open>main\<close>, run in
  RECOMPRESS mode on \<open>out\<close> with any codec, skips the file: it writes nothing.
\<close>

theorem recompress_signature_then_skip:
  assumes "getPackage f0 m0 = Inr (p, f)" and "unpacked p"
    and "putPackage qc qd f p RECOMPRESS = Inr (out, p', f')"
    and "length out < 2 ^ 32"
  shows "16 \<le> length out
    \<and> drop (length out - 16) out
        = le32 (of_nat (length out - 8)) @ le32 8 @ [0x42, 0x52, 0x47, 0x35]
          @ le32 (of_nat (length out))
    \<and> getInt out 48 = Inr (1, 52)
    \<and> getInt out 52 = Inr (of_nat (length out - 16), 56)
    \<and> getInt out 56 = Inr (8, 60)
    \<and> processFile qc' qd' RECOMPRESS out = Inr Skipped"
proof -
  from putPackage_getPackage [OF assms, of RECOMPRESS] obtain es P p2 where
    out: "out = packageBytes (header p) RECOMPRESS P es" and
    g: "getPackage (openFile out) RECOMPRESS = Inr (p2, openFile out)" and
    p2: "unpacked p2" "signature_in_package p2"
    by force
  note w = getPackage_writable [OF assms(1,2)]
  have "processFile qc' qd' RECOMPRESS out = Inr Skipped"
    by (simp add: processFile_def g p2)
  with packageBytes_RECOMPRESS [OF w(2), of P es] show ?thesis
    unfolding out le32_SIGNATURE by simp
qed


theorem recompress_signature_witness:
  "unpacked (packageOf equalFile RECOMPRESS)
   \<and> writtenBytes noCompression qfs_decompress equalFile RECOMPRESS = equalOut
   \<and> length equalOut = 186
   \<and> drop 170 equalOut = [178, 0, 0, 0, 8, 0, 0, 0, 0x42, 0x52, 0x47, 0x35, 186, 0, 0, 0]
   \<and> getInt equalOut 48 = Inr (1, 52)
   \<and> getInt equalOut 52 = Inr (170, 56)
   \<and> getInt equalOut 56 = Inr (8, 60)
   \<and> processFile noCompression qfs_decompress RECOMPRESS equalOut = Inr Skipped"
proof -
  have g: "returns (getPackage (openFile equalFile) RECOMPRESS)" by code_simp
  have u: "unpacked (packageOf equalFile RECOMPRESS)" by code_simp
  have r: "returns (putPackage noCompression qfs_decompress (streamOf equalFile RECOMPRESS)
             (packageOf equalFile RECOMPRESS) RECOMPRESS)" by code_simp
  have wb: "writtenBytes noCompression qfs_decompress equalFile RECOMPRESS = equalOut"
    by code_simp
  have l: "length equalOut = 186" by code_simp
  have d: "drop 170 equalOut = [178, 0, 0, 0, 8, 0, 0, 0, 0x42, 0x52, 0x47, 0x35, 186, 0, 0, 0]"
    by code_simp
  from returns_written [OF r] obtain f' where
    pp: "putPackage noCompression qfs_decompress (streamOf equalFile RECOMPRESS)
           (packageOf equalFile RECOMPRESS) RECOMPRESS
         = Inr (equalOut, writtenPackage noCompression qfs_decompress equalFile RECOMPRESS, f')"
    unfolding wb by blast
  from recompress_signature_then_skip [OF returns_packageOf [OF g] u pp,
         of noCompression qfs_decompress] u wb l d
  show ?thesis by simp
qed

lemma decompressEntry_decoded:
  assumes "getUncompressedSize content = Inr n" and "fst (qd content (unat n))"
  shows "\<exists>c. decompressEntry qd entry content = Inr (entry\<lparr>compressed := False\<rparr>, c)"
  using assms by (cases "compressed entry") (simp_all add: decompressEntry_def Let_def case_prod_beta)

lemma writeEntries_DECOMPRESS:
  assumes "decodable qd f es0"
  shows "\<exists>es nf' f'. writeEntries qc qd DECOMPRESS f nf es0 = Inr (es, nf', f')
       \<and> (\<forall>e\<in>set es. \<not> compressed e)"
  using assms
proof (induction es0 arbitrary: f nf)
  case Nil
  then show ?case by simp
next
  case (Cons e rest)
  define content where "content = fst (readFile f (e_location e) (e_size e))"
  define f1 where "f1 = snd (readFile f (e_location e) (e_size e))"
  have rd: "readFile f (e_location e) (e_size e) = (content, f1)"
    by (simp add: content_def f1_def)
  from Cons.prems have d: "decodable qd f1 rest"
    and ok: "compressed e \<longrightarrow> (\<exists>n. getUncompressedSize content = Inr n \<and> fst (qd content (unat n)))"
    by (auto simp: rd split: sum.splits)
  have "\<exists>c. transformEntry qc qd DECOMPRESS e content = Inr (e\<lparr>compressed := False\<rparr>, c)"
  proof (cases "compressed e")
    case True
    with ok obtain n where n: "getUncompressedSize content = Inr n" "fst (qd content (unat n))"
      by blast
    from decompressEntry_decoded [where qd = qd and content = content and n = n and entry = e]
      n
    show ?thesis by (simp add: transformEntry_def)
  next
    case False
    then show ?thesis by (simp add: transformEntry_def decompressEntry_def)
  qed
  then obtain c where t: "transformEntry qc qd DECOMPRESS e content = Inr (e\<lparr>compressed := False\<rparr>, c)"
    by blast
  from Cons.IH [OF d, of "nf @ c"] obtain es nf' f' where
    r: "writeEntries qc qd DECOMPRESS f1 (nf @ c) rest = Inr (es, nf', f')"
    and nc: "\<forall>e\<in>set es. \<not> compressed e" by blast
  show ?case
    using nc by (simp add: rd t r)
qed

lemma written_uncompressed_parse:
  assumes "getPackage f0 m0 = Inr (p, f)" and "unpacked p"
    and "putPackage qc qd f p mode = Inr (out, p', f')"
    and "length out < 2 ^ 32"
    and "\<forall>e\<in>set (entries p'). \<not> compressed e"
  shows "\<exists>p2. getPackage (openFile out) m = Inr (p2, openFile out) \<and> unpacked p2
      \<and> length (entries p2) = length (entries p)
      \<and> (\<forall>e\<in>set (entries p2). \<not> compressed e)
      \<and> compressedEntries p2 = Map.empty
      \<and> (\<forall>e\<in>set (entries p'). e_type e \<noteq> CLST_TYPE)"
proof -
  define minor where "minor = indexMinorVersion (header p)"
  from putPackage_getPackage [OF assms(1-4), of m] obtain es P ces where
    sk: "list_all2 sameKeys es (entries p)" and
    nc: "\<forall>e\<in>set es. e_type e \<noteq> CLST_TYPE" and
    p': "p' = p\<lparr>entries := withClst minor (96 + length P) es\<rparr>" and
    g: "getPackage (openFile out) m
          = Inr (\<lparr>unpacked = True, signature_in_package = (mode = RECOMPRESS),
               header = writtenHeader (header p) mode P es,
               entries = (let minor = indexMinorVersion (header p);
                              es1 = (if clstBytes minor es = [] then map (strip minor) es
                                     else map (markCompressed ces) (map (strip minor) es))
                          in if m = RECOMPRESS then markRepeated (length es1) 0 Map.empty es1
                             else es1),
               holes = writtenHoles mode (length out),
               compressedEntries = ces\<rparr>, openFile out)" and
    ce: "clstBytes minor es = [] \<longrightarrow> ces = Map.empty"
    unfolding minor_def by blast
  have sub: "set es \<subseteq> set (entries p')"
    by (auto simp: p' withClst_def)
  with assms(5) have "\<forall>e\<in>set es. \<not> compressed e" by blast
  then have C: "clstBytes minor es = []" by (simp add: clstBytes_empty_iff)
  then have e': "entries p' = es" by (simp add: p' withClst_def)
  define es2 where "es2 = (if m = RECOMPRESS
    then markRepeated (length es) 0 Map.empty (map (strip minor) es) else map (strip minor) es)"
  have "map compressed es2 = map compressed (map (strip minor) es)"
    unfolding es2_def by (simp add: markRepeated_map)
  then have "set (map compressed es2) \<subseteq> {False}" by auto
  then have nc2: "\<forall>e\<in>set es2. \<not> compressed e" by auto
  have len: "length es2 = length (entries p)"
    using list_all2_lengthD [OF sk] by (simp add: es2_def)
  have g': "getPackage (openFile out) m
      = Inr (\<lparr>unpacked = True, signature_in_package = (mode = RECOMPRESS),
               header = writtenHeader (header p) mode P es, entries = es2,
               holes = writtenHoles mode (length out),
               compressedEntries = Map.empty\<rparr>, openFile out)"
    using g C ce by (simp add: Let_def minor_def [symmetric] es2_def)
  show ?thesis
    using nc nc2 len by (simp add: g' e')
qed

lemma putPackage_DECOMPRESS_returns:
  assumes gp: "getPackage f0 m0 = Inr (p, f)" and un: "unpacked p"
    and dec: "decodable qd f (entries p)"
  shows "\<exists>out p' f'. putPackage qc qd f p DECOMPRESS = Inr (out, p', f')
      \<and> (\<forall>e\<in>set (entries p'). \<not> compressed e)"
proof -
  define minor where "minor = indexMinorVersion (header p)"
  note w = getPackage_writable [OF gp un]
  from writeEntries_DECOMPRESS [OF dec, of qc "headerBytes (header p)"] obtain es nf' f1 where
    we0: "writeEntries qc qd DECOMPRESS f (headerBytes (header p)) (entries p) = Inr (es, nf', f1)"
    and nc: "\<forall>e\<in>set es. \<not> compressed e" by blast
  from writeEntries_props [OF we0] obtain P where
    nf': "nf' = headerBytes (header p) @ P" and sk: "list_all2 sameKeys es (entries p)"
    by blast
  have len: "length es = length (entries p)" using sk by (rule list_all2_lengthD)
  have bound: "length es * 20 < 2 ^ 32"
    using w(4) unfolding len by (auto split: if_splits)
  note closed = putPackage_closed [OF w(2) we0 [unfolded nf'] bound]
  have C: "clstBytes minor es = []" using nc by (simp add: clstBytes_empty_iff)
  have "entries (p\<lparr>entries := withClst minor (96 + length P) es\<rparr>) = es"
    using C by (simp add: withClst_def)
  with closed nc show ?thesis
    unfolding minor_def by auto
qed

text \<open>
  C4, as amended. Let \<open>p\<close> be a package that the reader has unpacked from the stream
  \<open>f\<close>, and let every entry of \<open>p\<close> that is marked compressed decompress: read in the
  order of the entries, its payload has the nine bytes of the header and \<open>qd\<close>
  reports success on it (\<open>decodable\<close>). Then \<^verbatim>\<open>putPackage\<close> in DECOMPRESS mode
  returns; it leaves no entry marked compressed and writes no entry of the type of
  the directory of compressed files into the index; and when the file it wrote has
  less than \<open>2 ^ 32\<close> bytes, the reader unpacks that file, in any mode, into a package
  with as many entries as \<open>p\<close>, none of them marked compressed, and an empty
  directory of compressed files.
\<close>

theorem decompress_then_parse_no_compressed:
  assumes "getPackage f0 m0 = Inr (p, f)" and "unpacked p"
    and "decodable qd f (entries p)"
  shows "\<exists>out p' f'. putPackage qc qd f p DECOMPRESS = Inr (out, p', f')
      \<and> (\<forall>e\<in>set (entries p'). \<not> compressed e \<and> e_type e \<noteq> CLST_TYPE)
      \<and> (length out < 2 ^ 32 \<longrightarrow>
           (\<exists>p2. getPackage (openFile out) m = Inr (p2, openFile out) \<and> unpacked p2
              \<and> length (entries p2) = length (entries p)
              \<and> (\<forall>e\<in>set (entries p2). \<not> compressed e)
              \<and> compressedEntries p2 = Map.empty))"
proof -
  from putPackage_DECOMPRESS_returns [OF assms, of qc] obtain out p' f' where
    pp: "putPackage qc qd f p DECOMPRESS = Inr (out, p', f')"
    and nc: "\<forall>e\<in>set (entries p'). \<not> compressed e" by blast
  have ty: "\<forall>e\<in>set (entries p'). e_type e \<noteq> CLST_TYPE"
  proof -
    note w = getPackage_writable [OF assms(1,2)]
    from putPackage_InrD [OF w(2) pp] obtain es P f1 where
      we: "writeEntries qc qd DECOMPRESS f (headerBytes (header p)) (entries p)
             = Inr (es, headerBytes (header p) @ P, f1)" by blast
    from writeEntries_props [OF we] have sk: "list_all2 sameKeys es (entries p)" by blast
    have len: "length es = length (entries p)" using sk by (rule list_all2_lengthD)
    have bound: "length es * 20 < 2 ^ 32"
      using w(4) unfolding len by (auto split: if_splits)
    from pp putPackage_closed [OF w(2) we bound]
    have p': "p' = p\<lparr>entries := withClst (indexMinorVersion (header p)) (96 + length P) es\<rparr>"
      by simp
    have sub: "set es \<subseteq> set (entries p')" by (auto simp: p' withClst_def)
    with nc have "clstBytes (indexMinorVersion (header p)) es = []"
      by (auto simp: clstBytes_empty_iff)
    then have "entries p' = es" by (simp add: p' withClst_def)
    with sameKeys_type [OF sk w(3)] show ?thesis by simp
  qed
  have "\<exists>p2. getPackage (openFile out) m = Inr (p2, openFile out) \<and> unpacked p2
              \<and> length (entries p2) = length (entries p)
              \<and> (\<forall>e\<in>set (entries p2). \<not> compressed e)
              \<and> compressedEntries p2 = Map.empty"
    if "length out < 2 ^ 32"
    using written_uncompressed_parse [OF assms(1,2) pp that nc, of m] by blast
  with pp nc ty show ?thesis by blast
qed

theorem decompress_then_parse_witness:
  "unpacked (packageOf equalFile DECOMPRESS)
   \<and> map compressed (entries (packageOf equalFile DECOMPRESS)) = [True]
   \<and> decodable qfs_decompress (streamOf equalFile DECOMPRESS)
        (entries (packageOf equalFile DECOMPRESS))
   \<and> writtenBytes noCompression qfs_decompress equalFile DECOMPRESS = plainFile
   \<and> unpacked (packageOf plainFile DECOMPRESS)
   \<and> list_all (\<lambda>e. \<not> compressed e) (entries (packageOf plainFile DECOMPRESS))"
proof -
  have g: "returns (getPackage (openFile equalFile) DECOMPRESS)" by code_simp
  have u: "unpacked (packageOf equalFile DECOMPRESS)" by code_simp
  have c: "map compressed (entries (packageOf equalFile DECOMPRESS)) = [True]" by code_simp
  have d: "decodable qfs_decompress (streamOf equalFile DECOMPRESS)
        (entries (packageOf equalFile DECOMPRESS))" by code_simp
  have wb: "writtenBytes noCompression qfs_decompress equalFile DECOMPRESS = plainFile"
    by code_simp
  have l: "length plainFile < 2 ^ 32" by (simp add: plainFile_def)
  from decompress_then_parse_no_compressed [OF returns_packageOf [OF g] u d,
         of noCompression DECOMPRESS]
  obtain out p' f' where
    pp: "putPackage noCompression qfs_decompress (streamOf equalFile DECOMPRESS)
           (packageOf equalFile DECOMPRESS) DECOMPRESS = Inr (out, p', f')"
    and re: "length out < 2 ^ 32 \<longrightarrow>
           (\<exists>p2. getPackage (openFile out) DECOMPRESS = Inr (p2, openFile out) \<and> unpacked p2
              \<and> length (entries p2) = length (entries (packageOf equalFile DECOMPRESS))
              \<and> (\<forall>e\<in>set (entries p2). \<not> compressed e)
              \<and> compressedEntries p2 = Map.empty)"
    by blast
  have "out = plainFile" using wb pp by (simp add: writtenBytes_def)
  with re l obtain p2 where
    "getPackage (openFile plainFile) DECOMPRESS = Inr (p2, openFile plainFile)"
    "unpacked p2" "\<forall>e\<in>set (entries p2). \<not> compressed e" by blast
  then have "unpacked (packageOf plainFile DECOMPRESS)"
    "list_all (\<lambda>e. \<not> compressed e) (entries (packageOf plainFile DECOMPRESS))"
    by (simp_all add: packageOf_def list_all_iff)
  with u c d wb show ?thesis by simp
qed

text \<open>
  Without the condition the claim fails on \<open>corruptFile\<close>: the decompression of its
  entry fails, the writer in DECOMPRESS mode writes the same bytes again, the
  validator accepts them, and the entry of the file that was written is marked
  compressed when it is read.
\<close>

theorem decompress_keeps_corrupt_entry:
  "unpacked (packageOf corruptFile DECOMPRESS)
   \<and> map compressed (entries (packageOf corruptFile DECOMPRESS)) = [True]
   \<and> \<not> decodable qfs_decompress (streamOf corruptFile DECOMPRESS)
          (entries (packageOf corruptFile DECOMPRESS))
   \<and> writtenBytes noCompression qfs_decompress corruptFile DECOMPRESS = corruptFile
   \<and> processFile noCompression qfs_decompress DECOMPRESS corruptFile = Inr (Replaced corruptFile)"
proof -
  have 1: "unpacked (packageOf corruptFile DECOMPRESS)
     \<and> map compressed (entries (packageOf corruptFile DECOMPRESS)) = [True]" by code_simp
  have 2: "writtenBytes noCompression qfs_decompress corruptFile DECOMPRESS = corruptFile"
    by code_simp
  have 3: "processFile noCompression qfs_decompress DECOMPRESS corruptFile
     = Inr (Replaced corruptFile)" by code_simp
  have 4: "\<not> decodable qfs_decompress (streamOf corruptFile DECOMPRESS)
          (entries (packageOf corruptFile DECOMPRESS))" by code_simp
  from 1 2 3 4 show ?thesis by blast
qed

text \<open>
  C8. Let \<open>p\<close> be a package that the reader returns. None of its entries has the
  type \<open>0xE86B1EEF\<close>. When \<open>p\<close> is unpacked and \<^verbatim>\<open>putPackage\<close> writes it, in any mode
  and with any codec, there are the entries \<open>es\<close> as they were written (with the
  type, group, instance and resource of the entries of \<open>p\<close>, in the same order) and
  their payloads \<open>P\<close> such that: the entries the package is left with are \<open>es\<close>
  followed by one entry with the type \<open>0xE86B1EEF\<close>, the group \<open>0xE86B1EEF\<close>, the
  instance \<open>0x286B1F03\<close> and the resource 0 when some entry of \<open>es\<close> is compressed,
  and \<open>es\<close> alone otherwise; no entry of \<open>es\<close> has that type; and the bytes of the file
  at the location and of the size of that entry are the records \<open>clstRecord\<close> (type,
  group, instance, resource if the index version is 7.2, uncompressed size) of the
  compressed entries of \<open>es\<close>, one for each, in their order, and nothing else.
\<close>

theorem putPackage_clst_entry:
  assumes "getPackage f0 m0 = Inr (p, f)"
  shows "(\<forall>e\<in>set (entries p). e_type e \<noteq> 0xE86B1EEF)
    \<and> (unpacked p \<and> putPackage qc qd f p mode = Inr (out, p', f') \<longrightarrow>
        (\<exists>es P. list_all2 sameKeys es (entries p)
           \<and> out = packageBytes (header p) mode P es
           \<and> entries p'
               = (if \<exists>e\<in>set es. compressed e
                  then es @ [makeEntry 0xE86B1EEF 0xE86B1EEF 0x286B1F03 0 (of_nat (96 + length P))
                     (of_nat (length (concat (map (clstRecord (indexMinorVersion (header p)))
                                                (filter compressed es)))))]
                  else es)
           \<and> (\<forall>e\<in>set es. e_type e \<noteq> 0xE86B1EEF)
           \<and> take (length (concat (map (clstRecord (indexMinorVersion (header p)))
                                     (filter compressed es))))
                (drop (96 + length P) out)
               = concat (map (clstRecord (indexMinorVersion (header p))) (filter compressed es))))"
proof -
  define minor where "minor = indexMinorVersion (header p)"
  have reader: "\<forall>e\<in>set (entries p). e_type e \<noteq> CLST_TYPE"
  proof (cases "unpacked p")
    case True
    from getPackage_writable(3) [OF assms True] show ?thesis .
  next
    case False
    from getPackage_rejected [OF assms False] show ?thesis by simp
  qed
  have writer: "\<exists>es P. list_all2 sameKeys es (entries p)
           \<and> out = packageBytes (header p) mode P es
           \<and> entries p'
               = (if \<exists>e\<in>set es. compressed e
                  then es @ [clstEntry (96 + length P) (length (clstBytes minor es))]
                  else es)
           \<and> (\<forall>e\<in>set es. e_type e \<noteq> CLST_TYPE)
           \<and> take (length (clstBytes minor es)) (drop (96 + length P) out) = clstBytes minor es"
    if un: "unpacked p" and pp: "putPackage qc qd f p mode = Inr (out, p', f')"
  proof -
    note w = getPackage_writable [OF assms un]
    from putPackage_InrD [OF w(2) pp] obtain es P f1 where
      we: "writeEntries qc qd mode f (headerBytes (header p)) (entries p)
             = Inr (es, headerBytes (header p) @ P, f1)" by blast
    from writeEntries_props [OF we] have sk: "list_all2 sameKeys es (entries p)" by blast
    have len: "length es = length (entries p)" using sk by (rule list_all2_lengthD)
    have bound: "length es * 20 < 2 ^ 32"
      using w(4) unfolding len by (auto split: if_splits)
    from pp putPackage_closed [OF w(2) we bound]
    have out: "out = packageBytes (header p) mode P es"
      and p': "p' = p\<lparr>entries := withClst minor (96 + length P) es\<rparr>"
      by (simp_all add: minor_def)
    have noclst: "\<forall>e\<in>set es. e_type e \<noteq> CLST_TYPE"
      by (rule sameKeys_type [OF sk w(3)])
    have e': "entries p' = (if \<exists>e\<in>set es. compressed e
                  then es @ [clstEntry (96 + length P) (length (clstBytes minor es))]
                  else es)"
      by (simp add: p' withClst_def clstBytes_empty_iff)
    have "take (length (clstBytes minor es)) (drop (96 + length P) out) = clstBytes minor es"
      unfolding out minor_def by (rule packageBytes_clst [OF w(2)])
    with sk out e' noclst show ?thesis by blast
  qed
  show ?thesis
    using reader writer
    unfolding clstBytes_def clstEntry_def CLST_TYPE_def minor_def by blast
qed

theorem putPackage_clst_witness:
  "unpacked (packageOf equalFile RECOMPRESS)
   \<and> map key (entries (packageOf equalFile RECOMPRESS)) = [(1, 2, 3, 0)]
   \<and> writtenBytes noCompression qfs_decompress equalFile RECOMPRESS = equalOut
   \<and> map key (entries (writtenPackage noCompression qfs_decompress equalFile RECOMPRESS))
       = [(1, 2, 3, 0), (0xE86B1EEF, 0xE86B1EEF, 0x286B1F03, 0)]
   \<and> map compressed (entries (writtenPackage noCompression qfs_decompress equalFile RECOMPRESS))
       = [True, False]
   \<and> take 16 (drop 114 equalOut) = [1, 0, 0, 0, 2, 0, 0, 0, 3, 0, 0, 0, 18, 0, 0, 0]
   \<and> list_all (\<lambda>e. e_type e \<noteq> 0xE86B1EEF) (entries (packageOf equalFile RECOMPRESS))
   \<and> (\<exists>es P. list_all2 sameKeys es (entries (packageOf equalFile RECOMPRESS))
         \<and> equalOut = packageBytes (header (packageOf equalFile RECOMPRESS)) RECOMPRESS P es
         \<and> entries (writtenPackage noCompression qfs_decompress equalFile RECOMPRESS)
             = (if \<exists>e\<in>set es. compressed e
                then es @ [makeEntry 0xE86B1EEF 0xE86B1EEF 0x286B1F03 0 (of_nat (96 + length P))
                   (of_nat (length (concat (map (clstRecord
                       (indexMinorVersion (header (packageOf equalFile RECOMPRESS))))
                       (filter compressed es)))))]
                else es))"
proof -
  have g: "returns (getPackage (openFile equalFile) RECOMPRESS)" by code_simp
  have u: "unpacked (packageOf equalFile RECOMPRESS)" by code_simp
  have k: "map key (entries (packageOf equalFile RECOMPRESS)) = [(1, 2, 3, 0)]" by code_simp
  have r: "returns (putPackage noCompression qfs_decompress (streamOf equalFile RECOMPRESS)
             (packageOf equalFile RECOMPRESS) RECOMPRESS)" by code_simp
  have wb: "writtenBytes noCompression qfs_decompress equalFile RECOMPRESS = equalOut"
    by code_simp
  have k': "map key (entries (writtenPackage noCompression qfs_decompress equalFile RECOMPRESS))
       = [(1, 2, 3, 0), (0xE86B1EEF, 0xE86B1EEF, 0x286B1F03, 0)]" by code_simp
  have c': "map compressed (entries (writtenPackage noCompression qfs_decompress equalFile RECOMPRESS))
       = [True, False]" by code_simp
  have d: "take 16 (drop 114 equalOut) = [1, 0, 0, 0, 2, 0, 0, 0, 3, 0, 0, 0, 18, 0, 0, 0]"
    by code_simp
  from returns_written [OF r] obtain f' where
    pp: "putPackage noCompression qfs_decompress (streamOf equalFile RECOMPRESS)
           (packageOf equalFile RECOMPRESS) RECOMPRESS
         = Inr (equalOut, writtenPackage noCompression qfs_decompress equalFile RECOMPRESS, f')"
    unfolding wb by blast
  note t = putPackage_clst_entry [OF returns_packageOf [OF g], of noCompression qfs_decompress
      RECOMPRESS equalOut "writtenPackage noCompression qfs_decompress equalFile RECOMPRESS" f']
  from t have 1: "list_all (\<lambda>e. e_type e \<noteq> 0xE86B1EEF) (entries (packageOf equalFile RECOMPRESS))"
    by (simp add: list_all_iff)
  from t u pp have 2: "\<exists>es P. list_all2 sameKeys es (entries (packageOf equalFile RECOMPRESS))
         \<and> equalOut = packageBytes (header (packageOf equalFile RECOMPRESS)) RECOMPRESS P es
         \<and> entries (writtenPackage noCompression qfs_decompress equalFile RECOMPRESS)
             = (if \<exists>e\<in>set es. compressed e
                then es @ [makeEntry 0xE86B1EEF 0xE86B1EEF 0x286B1F03 0 (of_nat (96 + length P))
                   (of_nat (length (concat (map (clstRecord
                       (indexMinorVersion (header (packageOf equalFile RECOMPRESS))))
                       (filter compressed es)))))]
                else es)"
    by blast
  from u k wb k' c' d 1 2 show ?thesis by blast
qed

section \<open>The validator and the reader on example files\<close>

text \<open>
  C1. The file \<open>equalFile\<close> holds one compressed entry whose compressed size and
  uncompressed size are both 18. In RECOMPRESS mode, with a compressor that finds
  nothing shorter, the writer keeps the payload as it is and the file it writes is
  \<open>equalOut\<close>. Read back, its entry is marked compressed, the size in the index, the
  compressed size in the framing header, the uncompressed size in the framing header
  and the one in the directory of compressed files are all 18, and the validator
  returns true: the old file is replaced. The validator's check is
  \<^verbatim>\<open>compressedSize > uncompressedSize\<close>, so equal sizes pass.
\<close>

theorem validatePackage_accepts_equal_sizes:
  "processFile noCompression qfs_decompress RECOMPRESS equalFile = Inr (Replaced equalOut)
   \<and> map compressed (entries (packageOf equalOut RECOMPRESS)) = [True]
   \<and> map e_location (entries (packageOf equalOut RECOMPRESS)) = [96]
   \<and> map e_size (entries (packageOf equalOut RECOMPRESS)) = [18]
   \<and> map uncompressedSize (entries (packageOf equalOut RECOMPRESS)) = [18]
   \<and> getInt (fst (readFile (openFile equalOut) 96 18)) 0 = Inr (18, 4)
   \<and> getUncompressedSize (fst (readFile (openFile equalOut) 96 18)) = Inr 18
   \<and> validatePackage qfs_decompress (packageOf equalFile RECOMPRESS)
         (packageOf equalOut RECOMPRESS) (openFile equalFile) (openFile equalOut) RECOMPRESS
       = Inr True"
proof -
  have 1: "processFile noCompression qfs_decompress RECOMPRESS equalFile = Inr (Replaced equalOut)"
    by code_simp
  have 2: "map compressed (entries (packageOf equalOut RECOMPRESS)) = [True]
     \<and> map e_location (entries (packageOf equalOut RECOMPRESS)) = [96]
     \<and> map e_size (entries (packageOf equalOut RECOMPRESS)) = [18]
     \<and> map uncompressedSize (entries (packageOf equalOut RECOMPRESS)) = [18]"
    by code_simp
  have 3: "getInt (fst (readFile (openFile equalOut) 96 18)) 0 = Inr (18, 4)
     \<and> getUncompressedSize (fst (readFile (openFile equalOut) 96 18)) = Inr 18"
    by code_simp
  have 4: "validatePackage qfs_decompress (packageOf equalFile RECOMPRESS)
         (packageOf equalOut RECOMPRESS) (openFile equalFile) (openFile equalOut) RECOMPRESS
       = Inr True"
    by code_simp
  from 1 2 3 4 show ?thesis by blast
qed

theorem validatePackage_equal_sizes_witness:
  "validatePackage qfs_decompress (packageOf equalFile RECOMPRESS)
     (packageOf equalOut RECOMPRESS) (openFile equalFile) (openFile equalOut) RECOMPRESS
   = Inr True"
  using validatePackage_accepts_equal_sizes by blast

text \<open>
  C2. The reader unpacks \<open>shortFile\<close> and marks its entry compressed, with the
  uncompressed size 18 of the directory of compressed files, although the payload
  is the four bytes 1, 2, 3, 4: it has no framing header. In DECOMPRESS mode the
  writer then calls \<^verbatim>\<open>decompressEntry\<close>, whose \<^verbatim>\<open>getUncompressedSize\<close> reads
  the bytes 6, 7 and 8 of a payload of four bytes.
\<close>

theorem getPackage_marks_short_payload:
  "unpacked (packageOf shortFile DECOMPRESS)
   \<and> map compressed (entries (packageOf shortFile DECOMPRESS)) = [True]
   \<and> map uncompressedSize (entries (packageOf shortFile DECOMPRESS)) = [18]
   \<and> map e_location (entries (packageOf shortFile DECOMPRESS)) = [96]
   \<and> map e_size (entries (packageOf shortFile DECOMPRESS)) = [4]
   \<and> readFile (openFile shortFile) 96 4 = ([1, 2, 3, 4], openFile shortFile)
   \<and> processFile noCompression qfs_decompress DECOMPRESS shortFile = Inl OutOfBounds"
proof -
  have 1: "unpacked (packageOf shortFile DECOMPRESS)
     \<and> map compressed (entries (packageOf shortFile DECOMPRESS)) = [True]
     \<and> map uncompressedSize (entries (packageOf shortFile DECOMPRESS)) = [18]
     \<and> map e_location (entries (packageOf shortFile DECOMPRESS)) = [96]
     \<and> map e_size (entries (packageOf shortFile DECOMPRESS)) = [4]"
    by code_simp
  have 2: "readFile (openFile shortFile) 96 4 = ([1, 2, 3, 4], openFile shortFile)"
    by code_simp
  have 3: "processFile noCompression qfs_decompress DECOMPRESS shortFile = Inl OutOfBounds"
    by code_simp
  from 1 2 3 show ?thesis by blast
qed

end
